theory Spec2Isabelle
  imports Complex_Main "HOL-Library.Multiset"
begin

section \<open>Python values\<close>

text \<open>
  A Python \<open>str\<close> is a sequence of Unicode code points; a code point is a natural
  number.  Embedding vectors are lists of numbers; Python's floats are read as reals.
\<close>

type_synonym pystr = "nat list"
type_synonym vec = "real list"

datatype error =
    ProviderError nat
  | ClientError
  | IndexError
  | RuntimeError
  | SchemaError
  | InsertError
  | DataError
  | AnalysisError
  | WorkflowError
  | TrackerError

text \<open>
  Slicing \<open>xs[i:j]\<close>: a negative bound counts from the end, and both bounds are
  clamped into \<open>[0, len(xs)]\<close>; an empty range gives the empty list.
\<close>

definition py_clamp :: "nat \<Rightarrow> int \<Rightarrow> nat" where
  "py_clamp n k = (if k < 0 then nat (max 0 (int n + k)) else min n (nat k))"

definition py_slice :: "'a list \<Rightarrow> int \<Rightarrow> int \<Rightarrow> 'a list" where
  "py_slice xs i j =
     (let a = py_clamp (length xs) i; b = py_clamp (length xs) j
      in take (b - a) (drop a xs))"

section \<open>Embedding client (\<open>vector_store.embed_texts_openai\<close>)\<close>

text \<open>
  The embedding provider is outside the program.  \<open>respond p n batch\<close> is what the call
  number \<open>n\<close> (counted from 0 over the life of the process) answers to
  \<open>client.embeddings.create(input=batch)\<close>: an exception, or the list \<open>resp.data\<close> of
  pairs \<open>(d.index, d.embedding)\<close> in the order the provider sent them.
  \<open>client_error p\<close> is the exception \<open>_openai_client()\<close> raises, if any.
\<close>

record provider =
  client_error :: "error option"
  respond :: "nat \<Rightarrow> pystr list \<Rightarrow> error + (int \<times> vec) list"

text \<open>
  The effects of the client on the world: how many clients were constructed, how many
  provider calls were made, and the durations passed to \<open>time.sleep\<close>, in order.
\<close>

record world =
  clients_built :: nat
  provider_calls :: nat
  slept :: "real list"

text \<open>
  \<open>sleep_s = retry_backoff_sec * (2 ** (attempt - 1)) + (0.1 * attempt)\<close>, computed
  after \<open>attempt += 1\<close>, so for \<open>attempt \<ge> 1\<close>.
\<close>

definition sleep_s :: "real \<Rightarrow> nat \<Rightarrow> real" where
  "sleep_s retry_backoff_sec attempt =
     retry_backoff_sec * 2 ^ (attempt - 1) + (1 / 10) * real attempt"

text \<open>
  The inner \<open>while True\<close> loop for one batch.  \<open>attempt\<close> is the local counter, which
  starts at 0 and only grows.  A success sorts \<open>resp.data\<close> by \<open>d.index\<close> (Python's sort
  is stable) and yields the embeddings; a failure re-raises once
  \<open>attempt > max_retries\<close>, and sleeps and tries again otherwise.
\<close>

function retry_batch ::
  "provider \<Rightarrow> int \<Rightarrow> real \<Rightarrow> pystr list \<Rightarrow> nat \<Rightarrow> world \<Rightarrow> (error + vec list) \<times> world" where
  "retry_batch p max_retries retry_backoff_sec batch attempt w =
     (let w1 = w\<lparr>provider_calls := provider_calls w + 1\<rparr> in
      case respond p (provider_calls w) batch of
        Inr data \<Rightarrow> (Inr (map snd (sort_key fst data)), w1)
      | Inl e \<Rightarrow>
          (let attempt' = attempt + 1 in
           if int attempt' > max_retries then (Inl e, w1)
           else retry_batch p max_retries retry_backoff_sec batch attempt'
                  (w1\<lparr>slept := slept w1 @ [sleep_s retry_backoff_sec attempt']\<rparr>)))"
  by pat_completeness auto
termination
  by (relation "measure (\<lambda>(p, max_retries, b, batch, attempt, w). nat (max_retries - int attempt))")
     auto

declare retry_batch.simps [simp del]

text \<open>
  The outer \<open>while i < len(texts)\<close> loop.  With \<open>batch_size \<le> 0\<close> the index never passes
  the end and the loop need not return, so the result is optional: \<open>None\<close> is a run
  that does not return.  A raise drops \<open>out\<close>.
\<close>

partial_function (option) embed_loop ::
  "provider \<Rightarrow> int \<Rightarrow> int \<Rightarrow> real \<Rightarrow> pystr list \<Rightarrow> int \<Rightarrow> vec list \<Rightarrow> world
     \<Rightarrow> ((error + vec list) \<times> world) option" where
  "embed_loop p batch_size max_retries retry_backoff_sec texts i out w =
     (if i < int (length texts) then
        (case retry_batch p max_retries retry_backoff_sec
                (py_slice texts i (i + batch_size)) 0 w of
           (Inl e, w') \<Rightarrow> Some (Inl e, w')
         | (Inr vs, w') \<Rightarrow>
             embed_loop p batch_size max_retries retry_backoff_sec texts
               (i + batch_size) (out @ vs) w')
      else Some (Inr out, w))"

declare embed_loop.simps [code]

definition embed_texts_openai ::
  "provider \<Rightarrow> pystr list \<Rightarrow> int \<Rightarrow> int \<Rightarrow> real \<Rightarrow> world
     \<Rightarrow> ((error + vec list) \<times> world) option" where
  "embed_texts_openai p texts batch_size max_retries retry_backoff_sec w =
     (if texts = [] then Some (Inr [], w)
      else
        (let w1 = w\<lparr>clients_built := clients_built w + 1\<rparr> in
         case client_error p of
           Some e \<Rightarrow> Some (Inl e, w1)
         | None \<Rightarrow> embed_loop p batch_size max_retries retry_backoff_sec texts 0 [] w1))"

text \<open>
  What the provider is expected to send for a batch: one pair per input text, labelled
  with the text's position in the batch, in any order.  \<open>emb\<close> is the embedding the
  provider computes for a text.
\<close>

definition labelled :: "(pystr \<Rightarrow> vec) \<Rightarrow> pystr list \<Rightarrow> (int \<times> vec) list" where
  "labelled emb batch = zip (map int [0..<length batch]) (map emb batch)"

lemma filter_key_distinct:
  "distinct (map f xs) \<Longrightarrow> k \<in> set xs \<Longrightarrow> filter (\<lambda>x. f k = f x) xs = [k]"
proof (induction xs)
  case Nil
  then show ?case by simp
next
  case (Cons a xs)
  show ?case
  proof (cases "k = a")
    case True
    have "filter (\<lambda>x. f a = f x) xs = []"
      using Cons.prems(1) by (auto simp: filter_empty_conv)
    with True show ?thesis by simp
  next
    case False
    with Cons.prems have k: "k \<in> set xs" by simp
    have "f k \<in> f ` set xs" using k by (rule imageI)
    then have "f k \<noteq> f a" using Cons.prems(1) by auto
    with Cons.IH Cons.prems(1) k show ?thesis by simp
  qed
qed

lemma sort_key_unique:
  assumes m: "mset xs = mset ys" and s: "sorted (map f ys)" and d: "distinct (map f ys)"
  shows "sort_key f xs = ys"
proof (rule properties_for_sort_key)
  show "mset ys = mset xs" using m by simp
  show "sorted (map f ys)" by (rule s)
  fix k assume k: "k \<in> set ys"
  have "mset (map f xs) = mset (map f ys)" using m by simp
  then have dx: "distinct (map f xs)" using d by (metis mset_eq_imp_distinct_iff)
  have kx: "k \<in> set xs" using k m by (metis mset_eq_setD)
  show "filter (\<lambda>x. f k = f x) ys = filter (\<lambda>x. f k = f x) xs"
    by (simp add: filter_key_distinct[OF d k] filter_key_distinct[OF dx kx])
qed

lemma labelled_fst: "map fst (labelled emb batch) = map int [0..<length batch]"
  by (simp add: labelled_def)

lemma labelled_snd: "map snd (labelled emb batch) = map emb batch"
  by (simp add: labelled_def)

lemma sort_labelled:
  assumes "mset data = mset (labelled emb batch)"
  shows "map snd (sort_key fst data) = map emb batch"
proof -
  have "sorted (map fst (labelled emb batch))"
    unfolding labelled_fst by (simp add: sorted_map strict_sorted_iff[symmetric] sorted_wrt_map)
  moreover have "distinct (map fst (labelled emb batch))"
    unfolding labelled_fst by (simp add: distinct_map inj_on_def)
  ultimately have "sort_key fst data = labelled emb batch"
    using assms by (intro sort_key_unique) auto
  then show ?thesis by (simp add: labelled_snd)
qed

definition ordered_provider :: "(pystr \<Rightarrow> vec) \<Rightarrow> provider \<Rightarrow> bool" where
  "ordered_provider emb p \<longleftrightarrow>
     (\<forall>n batch data. respond p n batch = Inr data \<longrightarrow> mset data = mset (labelled emb batch))"

lemma retry_batch_result:
  "ordered_provider emb p \<Longrightarrow> retry_batch p mr bo batch attempt w = (Inr vs, w')
     \<Longrightarrow> vs = map emb batch"
proof (induction p mr bo batch attempt w rule: retry_batch.induct)
  case (1 p mr bo batch attempt w)
  show ?case
  proof (cases "respond p (provider_calls w) batch")
    case (Inl e)
    with "1.prems" "1.IH"[OF refl Inl refl] show ?thesis
      by (subst (asm) retry_batch.simps) (auto simp: Let_def split: if_splits)
  next
    case (Inr data)
    with "1.prems"(1) have "mset data = mset (labelled emb batch)"
      unfolding ordered_provider_def by blast
    from sort_labelled[OF this] Inr "1.prems"(2) show ?thesis
      by (subst (asm) retry_batch.simps) (auto simp: Let_def)
  qed
qed

lemma take_min_length: "take (min (length ys) b) ys = take b ys"
  by (cases "b \<le> length ys") (simp_all add: min_def)

lemma py_slice_batch:
  assumes "0 \<le> i" "0 < bs"
  shows "py_slice xs i (i + bs) = take (nat bs) (drop (nat i) xs)"
proof (cases "length xs \<le> nat i")
  case True
  then show ?thesis using assms by (simp add: py_slice_def py_clamp_def Let_def)
next
  case False
  have "nat (i + bs) = nat i + nat bs" using assms by (simp add: nat_add_distrib)
  then have "min (length xs) (nat (i + bs)) - nat i = min (length (drop (nat i) xs)) (nat bs)"
    using False by (simp add: min_def) linarith
  then show ?thesis using assms False
    by (simp add: py_slice_def py_clamp_def Let_def take_min_length del: length_drop)
qed

lemma embed_loop_total:
  assumes op: "ordered_provider emb p" and bs: "0 < bs"
  shows "0 \<le> i \<Longrightarrow> \<exists>r w'. embed_loop p bs mr bo texts i out w = Some (r, w') \<and>
           (\<forall>vs. r = Inr vs \<longrightarrow> vs = out @ map emb (drop (nat i) texts))"
proof (induction "length texts - nat i" arbitrary: i out w rule: less_induct)
  case less
  show ?case
  proof (cases "i < int (length texts)")
    case False
    then show ?thesis using less.prems by (subst embed_loop.simps) simp
  next
    case True
    let ?batch = "py_slice texts i (i + bs)"
    obtain r1 w1 where rb: "retry_batch p mr bo ?batch 0 w = (r1, w1)" by fastforce
    show ?thesis
    proof (cases r1)
      case (Inl e)
      with rb True show ?thesis by (subst embed_loop.simps) simp
    next
      case (Inr vs)
      have vs: "vs = map emb ?batch" using retry_batch_result[OF op] rb Inr by blast
      have lt: "length texts - nat (i + bs) < length texts - nat i"
        using True bs less.prems by linarith
      have "0 \<le> i + bs" using bs less.prems by simp
      from less.hyps[OF lt this, of "out @ vs" w1]
      obtain r w' where ih: "embed_loop p bs mr bo texts (i + bs) (out @ vs) w1 = Some (r, w')"
        "\<forall>us. r = Inr us \<longrightarrow> us = (out @ vs) @ map emb (drop (nat (i + bs)) texts)" by blast
      have "drop (nat (i + bs)) texts = drop (nat bs) (drop (nat i) texts)"
        using bs less.prems by (simp add: nat_add_distrib add.commute)
      then have "vs @ map emb (drop (nat (i + bs)) texts) = map emb (drop (nat i) texts)"
        using vs py_slice_batch[OF less.prems bs, of texts]
        by (metis append_take_drop_id map_append)
      with ih rb Inr True show ?thesis by (subst embed_loop.simps) simp
    qed
  qed
qed


definition never_fails :: "provider \<Rightarrow> bool" where
  "never_fails p \<longleftrightarrow> (\<forall>n batch. \<exists>data. respond p n batch = Inr data)"

lemma retry_batch_first_success:
  "respond p (provider_calls w) batch = Inr data \<Longrightarrow>
   retry_batch p mr bo batch attempt w =
     (Inr (map snd (sort_key fst data)), w\<lparr>provider_calls := provider_calls w + 1\<rparr>)"
  by (subst retry_batch.simps) (simp add: Let_def)

lemma embed_loop_never_fails:
  assumes nf: "never_fails p" and bs: "0 < bs"
  shows "0 \<le> i \<Longrightarrow> embed_loop p bs mr bo texts i out w = Some (r, w') \<Longrightarrow> \<exists>vs. r = Inr vs"
proof (induction "length texts - nat i" arbitrary: i out w rule: less_induct)
  case less
  show ?case
  proof (cases "i < int (length texts)")
    case False
    then show ?thesis using less.prems by (subst (asm) embed_loop.simps) auto
  next
    case True
    let ?batch = "py_slice texts i (i + bs)"
    obtain data where d: "respond p (provider_calls w) ?batch = Inr data"
      using nf unfolding never_fails_def by blast
    have lt: "length texts - nat (i + bs) < length texts - nat i"
      using True bs less.prems by linarith
    have nn: "0 \<le> i + bs" using bs less.prems by simp
    have "embed_loop p bs mr bo texts (i + bs) (out @ map snd (sort_key fst data))
            (w\<lparr>provider_calls := provider_calls w + 1\<rparr>) = Some (r, w')"
      using less.prems(2) True retry_batch_first_success[OF d, of mr bo 0]
      by (subst (asm) embed_loop.simps) simp
    from less.hyps[OF lt nn this] show ?thesis .
  qed
qed

lemma retry_batch_exhausted:
  "\<forall>k \<le> nat (mr - int attempt). \<exists>e. respond p (provider_calls w + k) batch = Inl e \<Longrightarrow>
   \<exists>e. retry_batch p mr bo batch attempt w =
     (Inl e, w\<lparr>provider_calls := provider_calls w + nat (mr - int attempt) + 1,
               slept := slept w @ map (sleep_s bo) [attempt + 1 ..< attempt + 1 + nat (mr - int attempt)]\<rparr>)"
proof (induction p mr bo batch attempt w rule: retry_batch.induct)
  case (1 p mr bo batch attempt w)
  from "1.prems" obtain e where e: "respond p (provider_calls w) batch = Inl e"
    by (metis add.right_neutral le0)
  show ?case
  proof (cases "int (attempt + 1) > mr")
    case True
    then have "nat (mr - int attempt) = 0" by simp
    with e True show ?thesis by (subst retry_batch.simps) (simp add: Let_def)
  next
    case False
    let ?w1 = "w\<lparr>provider_calls := provider_calls w + 1\<rparr>"
    let ?w = "?w1\<lparr>slept := slept ?w1 @ [sleep_s bo (attempt + 1)]\<rparr>"
    have n: "nat (mr - int attempt) = Suc (nat (mr - int (attempt + 1)))" using False by simp
    have "\<forall>k \<le> nat (mr - int (attempt + 1)). \<exists>e. respond p (provider_calls ?w + k) batch = Inl e"
    proof (intro allI impI)
      fix k assume "k \<le> nat (mr - int (attempt + 1))"
      then have "Suc k \<le> nat (mr - int attempt)" using n by simp
      with "1.prems" have "\<exists>e. respond p (provider_calls w + Suc k) batch = Inl e" by blast
      then show "\<exists>e. respond p (provider_calls ?w + k) batch = Inl e" by simp
    qed
    from "1.IH"[OF refl e refl False this]
    obtain e' where ih: "retry_batch p mr bo batch (attempt + 1) ?w =
       (Inl e', ?w\<lparr>provider_calls := provider_calls ?w + nat (mr - int (attempt + 1)) + 1,
               slept := slept ?w @ map (sleep_s bo) [attempt + 1 + 1 ..< attempt + 1 + 1 + nat (mr - int (attempt + 1))]\<rparr>)"
      by auto
    have "[attempt + 1 ..< attempt + 1 + nat (mr - int attempt)] =
          (attempt + 1) # [attempt + 1 + 1 ..< attempt + 1 + 1 + nat (mr - int (attempt + 1))]"
      unfolding n by (simp add: upt_rec)
    moreover have "retry_batch p mr bo batch attempt w = retry_batch p mr bo batch (attempt + 1) ?w"
      using e False by (subst retry_batch.simps) (simp add: Let_def)
    ultimately show ?thesis using ih n by simp
  qed
qed

lemma sleep_s_doubles:
  "sleep_s bo (a + 2) - (1 / 10) * real (a + 2) = 2 * (sleep_s bo (a + 1) - (1 / 10) * real (a + 1))"
  by (simp add: sleep_s_def)


text \<open>
  Claim C10.  On the empty input list the embedding client returns the empty list at
  once: the world is unchanged, so no client was constructed and no provider call made.
\<close>

theorem embed_empty_input:
  "embed_texts_openai p [] batch_size max_retries retry_backoff_sec w = Some (Inr [], w)"
  by (simp add: embed_texts_openai_def)

text \<open>
  Claim C4.  With a positive batch size, a client that can be constructed and a provider
  whose every answer holds one result per text of the batch, labelled by position and in
  any order, the embedding call returns; a returned list has the length of the input
  and its i-th element is the embedding of the i-th text; and when no provider call
  fails, that list is what is returned.
\<close>

theorem embed_preserves_input_order:
  assumes "ordered_provider emb p" and "0 < batch_size" and "client_error p = None"
  shows "\<exists>r w'. embed_texts_openai p texts batch_size max_retries retry_backoff_sec w = Some (r, w') \<and>
           (\<forall>vs. r = Inr vs \<longrightarrow>
              length vs = length texts \<and> (\<forall>i < length texts. vs ! i = emb (texts ! i))) \<and>
           (never_fails p \<longrightarrow> r = Inr (map emb texts))"
proof (cases "texts = []")
  case True
  have "embed_texts_openai p texts batch_size max_retries retry_backoff_sec w = Some (Inr [], w)"
    using True by (simp add: embed_texts_openai_def)
  moreover have "map emb texts = []" using True by simp
  ultimately show ?thesis using True by simp
next
  case False
  let ?w1 = "w\<lparr>clients_built := clients_built w + 1\<rparr>"
  have z: "(0::int) \<le> 0" by simp
  from embed_loop_total[OF assms(1,2) z, of max_retries retry_backoff_sec texts "[]" ?w1]
  obtain r w' where run: "embed_loop p batch_size max_retries retry_backoff_sec texts 0 [] ?w1 = Some (r, w')"
    and res: "\<forall>vs. r = Inr vs \<longrightarrow> vs = [] @ map emb (drop (nat 0) texts)" by blast
  have eq: "embed_texts_openai p texts batch_size max_retries retry_backoff_sec w = Some (r, w')"
    using run False assms(3) by (simp add: embed_texts_openai_def Let_def)
  have a: "\<forall>vs. r = Inr vs \<longrightarrow>
              length vs = length texts \<and> (\<forall>i < length texts. vs ! i = emb (texts ! i))"
  proof (intro allI impI)
    fix vs assume "r = Inr vs"
    with res have "vs = [] @ map emb (drop (nat 0) texts)" by blast
    then have "vs = map emb texts" by simp
    then show "length vs = length texts \<and> (\<forall>i < length texts. vs ! i = emb (texts ! i))"
      by simp
  qed
  have b: "never_fails p \<longrightarrow> r = Inr (map emb texts)"
  proof
    assume nf: "never_fails p"
    from embed_loop_never_fails[OF nf assms(2) z run] obtain vs where v: "r = Inr vs" by blast
    with res have "vs = [] @ map emb (drop (nat 0) texts)" by blast
    then have "vs = map emb texts" by simp
    with v show "r = Inr (map emb texts)" by simp
  qed
  from eq a b show ?thesis by blast
qed

theorem embed_preserves_input_order_witness:
  "ordered_provider (map real)
     \<lparr>client_error = None, respond = \<lambda>n batch. Inr (rev (labelled (map real) batch))\<rparr> \<and>
   (\<exists>w'. embed_texts_openai
       \<lparr>client_error = None, respond = \<lambda>n batch. Inr (rev (labelled (map real) batch))\<rparr>
       [[97], [98]] 64 3 (3 / 2) \<lparr>clients_built = 0, provider_calls = 0, slept = []\<rparr>
     = Some (Inr [[97], [98]], w'))"
proof -
  let ?p = "\<lparr>client_error = None, respond = \<lambda>n batch. Inr (rev (labelled (map real) batch))\<rparr>"
  let ?w = "\<lparr>clients_built = 0, provider_calls = 0, slept = []\<rparr>"
  have h: "ordered_provider (map real) ?p" by (simp add: ordered_provider_def)
  have nf: "never_fails ?p" by (simp add: never_fails_def)
  have c1: "(0::int) < 64" by simp
  have c2: "client_error ?p = None" by simp
  from embed_preserves_input_order[OF h c1 c2, of "[[97], [98]]" 3 "3 / 2" ?w]
  obtain r w' where run: "embed_texts_openai ?p [[97], [98]] 64 3 (3 / 2) ?w = Some (r, w')"
    and nfr: "never_fails ?p \<longrightarrow> r = Inr (map (map real) [[97], [98]])" by blast
  from nfr nf have "r = Inr [[97], [98]]" by simp
  with run have "\<exists>w'. embed_texts_openai ?p [[97], [98]] 64 3 (3 / 2) ?w = Some (Inr [[97], [98]], w')"
    by blast
  from h this show ?thesis by (rule conjI)
qed

text \<open>
  Claim C8.  At any batch of the loop, with any results \<open>out\<close> already gathered: when
  the provider fails the first call and each of the \<open>max_retries\<close> retries, the whole
  operation raises after exactly those calls, having slept \<open>sleep_s\<close> of 1, 2, ...,
  \<open>max_retries\<close> between them, and \<open>out\<close> is not returned.  The backoff part of
  \<open>sleep_s\<close> doubles with each attempt.
\<close>

theorem embed_retries_then_aborts:
  assumes "i < int (length texts)"
    and "\<forall>k \<le> nat max_retries.
           \<exists>e. respond p (provider_calls w + k) (py_slice texts i (i + batch_size)) = Inl e"
  shows "(\<exists>e. embed_loop p batch_size max_retries retry_backoff_sec texts i out w =
            Some (Inl e, w\<lparr>provider_calls := provider_calls w + nat max_retries + 1,
                            slept := slept w @ map (sleep_s retry_backoff_sec) [1 ..< nat max_retries + 1]\<rparr>)) \<and>
         (\<forall>a. sleep_s retry_backoff_sec (a + 2) - (1 / 10) * real (a + 2) =
              2 * (sleep_s retry_backoff_sec (a + 1) - (1 / 10) * real (a + 1)))"
proof
  let ?w' = "w\<lparr>provider_calls := provider_calls w + nat max_retries + 1,
                slept := slept w @ map (sleep_s retry_backoff_sec) [1 ..< nat max_retries + 1]\<rparr>"
  have "\<forall>k \<le> nat (max_retries - int 0).
           \<exists>e. respond p (provider_calls w + k) (py_slice texts i (i + batch_size)) = Inl e"
    using assms(2) by simp
  from retry_batch_exhausted[OF this, of retry_backoff_sec]
  obtain e where "retry_batch p max_retries retry_backoff_sec (py_slice texts i (i + batch_size)) 0 w =
     (Inl e, ?w')"
    by auto
  then have "embed_loop p batch_size max_retries retry_backoff_sec texts i out w = Some (Inl e, ?w')"
    using assms(1) by (subst embed_loop.simps) simp
  then show "\<exists>e. embed_loop p batch_size max_retries retry_backoff_sec texts i out w = Some (Inl e, ?w')"
    by (rule exI)
next
  show "\<forall>a. sleep_s retry_backoff_sec (a + 2) - (1 / 10) * real (a + 2) =
              2 * (sleep_s retry_backoff_sec (a + 1) - (1 / 10) * real (a + 1))"
    by (rule allI) (rule sleep_s_doubles)
qed


theorem embed_retries_then_aborts_witness:
  "0 < int (length [[97::nat]]) \<and>
   (\<exists>e. embed_loop \<lparr>client_error = None, respond = \<lambda>n batch. Inl (ProviderError n)\<rparr>
          64 3 (3 / 2) [[97]] 0 [[1]] \<lparr>clients_built = 0, provider_calls = 0, slept = []\<rparr> =
        Some (Inl e, \<lparr>clients_built = 0, provider_calls = 4, slept = [16 / 10, 32 / 10, 63 / 10]\<rparr>))"
proof -
  let ?p = "\<lparr>client_error = None, respond = \<lambda>n batch. Inl (ProviderError n)\<rparr>"
  let ?w = "\<lparr>clients_built = 0, provider_calls = 0, slept = []\<rparr>"
  have u: "[1 ..< nat 3 + 1] = [1, 2, 3::nat]" by (simp add: upt_rec)
  have c1: "0 < int (length [[97::nat]])" by simp
  have c2: "\<forall>k \<le> nat 3. \<exists>e. respond ?p (provider_calls ?w + k) (py_slice [[97]] 0 (0 + 64)) = Inl e"
    by simp
  from embed_retries_then_aborts[OF c1 c2, of "3 / 2" "[[1]]"]
  obtain e where "embed_loop ?p 64 3 (3 / 2) [[97]] 0 [[1]] ?w =
     Some (Inl e, ?w\<lparr>provider_calls := provider_calls ?w + nat 3 + 1,
                       slept := slept ?w @ map (sleep_s (3 / 2)) [1 ..< nat 3 + 1]\<rparr>)" by blast
  then have "embed_loop ?p 64 3 (3 / 2) [[97]] 0 [[1]] ?w =
     Some (Inl e, \<lparr>clients_built = 0, provider_calls = 4, slept = [16 / 10, 32 / 10, 63 / 10]\<rparr>)"
    unfolding u by (simp add: sleep_s_def)
  with c1 show ?thesis by blast
qed


section \<open>Syntax-aware chunking (\<open>vector_store._extract_tree_sitter_chunks\<close>)\<close>

text \<open>
  \<open>len(ch.encode("utf-8"))\<close> for a code point.  A surrogate cannot be encoded;
  \<open>_utf8_byte_offsets\<close> is reached only after \<open>content.encode("utf-8")\<close> has accepted
  the whole content.
\<close>

definition utf8_len :: "nat \<Rightarrow> int" where
  "utf8_len ch = (if ch < 0x80 then 1 else if ch < 0x800 then 2 else if ch < 0x10000 then 3 else 4)"

definition encodable :: "nat \<Rightarrow> bool" where
  "encodable ch \<longleftrightarrow> \<not> (0xD800 \<le> ch \<and> ch \<le> 0xDFFF)"

text \<open>
  \<open>_utf8_byte_offsets\<close>: entry \<open>i\<close> is the byte offset of character \<open>i\<close>, the last entry
  the length in bytes; \<open>offsets_from\<close> is its loop with the running total.
\<close>

fun offsets_from :: "int \<Rightarrow> pystr \<Rightarrow> int list" where
  "offsets_from tot [] = []"
| "offsets_from tot (ch # cs) = (tot + utf8_len ch) # offsets_from (tot + utf8_len ch) cs"

definition utf8_byte_offsets :: "pystr \<Rightarrow> int list" where
  "utf8_byte_offsets content = 0 # offsets_from 0 content"

text \<open>
  \<open>bisect.bisect_left\<close>, the binary search of the standard library, and
  \<open>_char_index_from_byte\<close>; \<open>byte_offsets[-1]\<close> raises on an empty list.
\<close>

function bisect_loop :: "int list \<Rightarrow> int \<Rightarrow> nat \<Rightarrow> nat \<Rightarrow> nat" where
  "bisect_loop a x lo hi =
     (if lo < hi then
        (let mid = (lo + hi) div 2 in
         if a ! mid < x then bisect_loop a x (mid + 1) hi else bisect_loop a x lo mid)
      else lo)"
  by pat_completeness auto
termination
  by (relation "measure (\<lambda>(a, x, lo, hi). hi - lo)") auto

declare bisect_loop.simps [simp del]

definition bisect_left :: "int list \<Rightarrow> int \<Rightarrow> nat" where
  "bisect_left a x = bisect_loop a x 0 (length a)"

definition char_index_from_byte :: "int list \<Rightarrow> int \<Rightarrow> error + nat" where
  "char_index_from_byte byte_offsets byte_pos =
     (if byte_pos \<le> 0 then Inr 0
      else if byte_offsets = [] then Inl IndexError
      else if byte_pos \<ge> last byte_offsets then Inr (length byte_offsets - 1)
      else Inr (bisect_left byte_offsets byte_pos))"

lemma bisect_loop_spec:
  "sorted a \<Longrightarrow> lo \<le> hi \<Longrightarrow> hi \<le> length a \<Longrightarrow> (\<forall>i<lo. a ! i < x) \<Longrightarrow>
   (\<forall>i. hi \<le> i \<and> i < length a \<longrightarrow> x \<le> a ! i) \<Longrightarrow>
   lo \<le> bisect_loop a x lo hi \<and> bisect_loop a x lo hi \<le> hi \<and>
   (\<forall>i < bisect_loop a x lo hi. a ! i < x) \<and>
   (\<forall>i. bisect_loop a x lo hi \<le> i \<and> i < length a \<longrightarrow> x \<le> a ! i)"
proof (induction a x lo hi rule: bisect_loop.induct)
  case (1 a x lo hi)
  show ?case
  proof (cases "lo < hi")
    case False
    with "1.prems" show ?thesis by (subst (1 2 3 4) bisect_loop.simps) auto
  next
    case True
    define mid where "mid = (lo + hi) div 2"
    have m: "lo \<le> mid" "mid < hi" "mid < length a" using True "1.prems"(3) by (auto simp: mid_def)
    show ?thesis
    proof (cases "a ! mid < x")
      case lt: True
      have below: "\<forall>i<mid + 1. a ! i < x"
      proof (intro allI impI)
        fix i assume "i < mid + 1"
        then have "a ! i \<le> a ! mid" using "1.prems"(1) m by (auto simp: sorted_iff_nth_mono)
        with lt show "a ! i < x" by simp
      qed
      have eq: "bisect_loop a x lo hi = bisect_loop a x (mid + 1) hi"
        using True lt by (subst bisect_loop.simps) (simp add: mid_def Let_def)
      from "1.IH"(1)[OF True mid_def[symmetric, THEN sym] lt "1.prems"(1) _ "1.prems"(3) below "1.prems"(5)] m
      show ?thesis unfolding eq by auto
    next
      case ge: False
      have above: "\<forall>i. mid \<le> i \<and> i < length a \<longrightarrow> x \<le> a ! i"
      proof (intro allI impI)
        fix i assume "mid \<le> i \<and> i < length a"
        then have "a ! mid \<le> a ! i" using "1.prems"(1) by (auto simp: sorted_iff_nth_mono)
        with ge show "x \<le> a ! i" by simp
      qed
      have eq: "bisect_loop a x lo hi = bisect_loop a x lo mid"
        using True ge by (subst bisect_loop.simps) (simp add: mid_def Let_def)
      from "1.IH"(2)[OF True mid_def[symmetric, THEN sym] ge "1.prems"(1) m(1) _ "1.prems"(4) above] m
      show ?thesis unfolding eq by auto
    qed
  qed
qed


text \<open>
  A node of the syntax tree, a span \<open>(start_char, end_char, node_type)\<close>, the chunkable
  node types of \<open>_get_chunkable_node_types\<close>, and the inner function \<open>traverse\<close>, which
  returns the chunks it appends: a node of a chunkable type that is small enough is taken
  and its children are not visited.
\<close>

datatype node = Node (ntype: string) (start_byte: int) (end_byte: int) (children: "node list")

type_synonym span = "nat \<times> nat \<times> string"

definition get_chunkable_node_types :: "string \<Rightarrow> string list" where
  "get_chunkable_node_types file_ext =
     (if file_ext \<in> {''.py'', ''.pyw''} then
        [''function_definition'', ''class_definition'', ''decorated_definition'']
      else if file_ext \<in> {''.js'', ''.jsx''} then
        [''function_declaration'', ''class_declaration'', ''method_definition'',
         ''arrow_function'', ''function_expression'']
      else if file_ext \<in> {''.ts'', ''.tsx''} then
        [''function_declaration'', ''class_declaration'', ''method_definition'',
         ''interface_declaration'', ''type_alias_declaration'']
      else if file_ext = ''.java'' then
        [''class_declaration'', ''method_declaration'', ''interface_declaration'',
         ''constructor_declaration'']
      else if file_ext = ''.go'' then
        [''function_declaration'', ''method_declaration'', ''type_declaration'', ''type_spec'']
      else if file_ext = ''.rs'' then
        [''function_item'', ''impl_item'', ''trait_item'', ''struct_item'', ''enum_item'',
         ''mod_item'']
      else if file_ext = ''.c'' then
        [''function_definition'', ''struct_specifier'', ''class_specifier'']
      else if file_ext = ''.cpp'' then
        [''function_definition'', ''class_specifier'', ''struct_specifier'',
         ''namespace_definition'']
      else if file_ext \<in> {''.cc'', ''.cxx'', ''.h'', ''.hpp''} then
        [''function_definition'', ''class_specifier'', ''struct_specifier'']
      else if file_ext = ''.cs'' then
        [''class_declaration'', ''method_declaration'', ''interface_declaration'',
         ''struct_declaration'', ''namespace_declaration'']
      else [])"

fun traverse :: "string list \<Rightarrow> int list \<Rightarrow> int \<Rightarrow> node \<Rightarrow> error + span list"
  and traverse_children :: "string list \<Rightarrow> int list \<Rightarrow> int \<Rightarrow> node list \<Rightarrow> error + span list"
where
  "traverse target_types byte_offsets max_chunk_chars (Node ty sb eb cs) =
     (if ty \<in> set target_types then
        (case char_index_from_byte byte_offsets sb of
           Inl e \<Rightarrow> Inl e
         | Inr start_char \<Rightarrow>
             (case char_index_from_byte byte_offsets eb of
                Inl e \<Rightarrow> Inl e
              | Inr end_char \<Rightarrow>
                  if int end_char - int start_char \<le> max_chunk_chars * 2
                  then Inr [(start_char, end_char, ty)]
                  else traverse_children target_types byte_offsets max_chunk_chars cs))
      else traverse_children target_types byte_offsets max_chunk_chars cs)"
| "traverse_children target_types byte_offsets max_chunk_chars [] = Inr []"
| "traverse_children target_types byte_offsets max_chunk_chars (c # cs) =
     (case traverse target_types byte_offsets max_chunk_chars c of
        Inl e \<Rightarrow> Inl e
      | Inr xs \<Rightarrow>
          (case traverse_children target_types byte_offsets max_chunk_chars cs of
             Inl e \<Rightarrow> Inl e
           | Inr ys \<Rightarrow> Inr (xs @ ys)))"

text \<open>
  The final filter drops the chunk at position \<open>i\<close> when a chunk at another position
  contains it.  \<open>_extract_tree_sitter_chunks\<close> returns no chunk without a parser, when
  encoding or parsing raises, and for an extension without chunkable types; otherwise
  the chunks of the traversal, sorted by start (stably) and filtered.
\<close>

definition contained_in_other :: "span list \<Rightarrow> nat \<Rightarrow> bool" where
  "contained_in_other chunks i =
     list_ex (\<lambda>j. i \<noteq> j \<and> fst (chunks ! i) \<ge> fst (chunks ! j) \<and>
                  fst (snd (chunks ! i)) \<le> fst (snd (chunks ! j)))
       [0 ..< length chunks]"

definition drop_contained :: "span list \<Rightarrow> span list" where
  "drop_contained chunks =
     map (\<lambda>i. chunks ! i) (filter (\<lambda>i. \<not> contained_in_other chunks i) [0 ..< length chunks])"

definition extract_tree_sitter_chunks ::
  "pystr \<Rightarrow> (pystr \<Rightarrow> node option) option \<Rightarrow> string \<Rightarrow> int \<Rightarrow> error + span list" where
  "extract_tree_sitter_chunks content parser file_ext max_chunk_chars =
     (case parser of
        None \<Rightarrow> Inr []
      | Some parse \<Rightarrow>
          if \<not> list_all encodable content then Inr []
          else
            (case parse content of
               None \<Rightarrow> Inr []
             | Some root_node \<Rightarrow>
                 (let target_types = get_chunkable_node_types file_ext in
                  if target_types = [] then Inr []
                  else
                    (let byte_offsets = utf8_byte_offsets content in
                     case traverse target_types byte_offsets max_chunk_chars root_node of
                       Inl e \<Rightarrow> Inl e
                     | Inr chunks \<Rightarrow> Inr (drop_contained (sort_key fst chunks))))))"

fun wf_node :: "node \<Rightarrow> bool" where
  "wf_node (Node ty sb eb cs) \<longleftrightarrow> sb \<le> eb \<and> list_all wf_node cs"

lemma utf8_len_pos: "0 < utf8_len ch"
  by (simp add: utf8_len_def)

lemma offsets_from_length: "length (offsets_from tot cs) = length cs"
  by (induction cs arbitrary: tot) simp_all

lemma offsets_from_lower: "x \<in> set (offsets_from tot cs) \<Longrightarrow> tot < x"
proof (induction cs arbitrary: tot)
  case Nil
  then show ?case by simp
next
  case (Cons c cs)
  from Cons.prems have "x = tot + utf8_len c \<or> x \<in> set (offsets_from (tot + utf8_len c) cs)" by simp
  then show ?case
  proof
    assume "x = tot + utf8_len c"
    then show ?thesis using utf8_len_pos[of c] by simp
  next
    assume "x \<in> set (offsets_from (tot + utf8_len c) cs)"
    from Cons.IH[OF this] show ?thesis using utf8_len_pos[of c] by simp
  qed
qed

lemma offsets_from_sorted: "sorted (tot # offsets_from tot cs)"
proof (induction cs arbitrary: tot)
  case Nil
  then show ?case by simp
next
  case (Cons c cs)
  have "\<forall>x \<in> set (offsets_from tot (c # cs)). tot \<le> x"
    using offsets_from_lower[of _ tot "c # cs"] by (meson less_imp_le)
  moreover have "sorted (offsets_from tot (c # cs))" using Cons.IH[of "tot + utf8_len c"] by simp
  ultimately show ?case by simp
qed

lemma utf8_byte_offsets_sorted: "sorted (utf8_byte_offsets content)"
  by (simp only: utf8_byte_offsets_def offsets_from_sorted)

lemma utf8_byte_offsets_length: "length (utf8_byte_offsets content) = length content + 1"
  by (simp add: utf8_byte_offsets_def offsets_from_length)

lemma bisect_left_spec:
  assumes "sorted a"
  shows "bisect_left a x \<le> length a \<and> (\<forall>i < bisect_left a x. a ! i < x) \<and>
         (\<forall>i. bisect_left a x \<le> i \<and> i < length a \<longrightarrow> x \<le> a ! i)"
  using bisect_loop_spec[OF assms, of 0 "length a" x] by (simp add: bisect_left_def)

lemma bisect_left_mono:
  assumes s: "sorted a" and le: "x \<le> y"
  shows "bisect_left a x \<le> bisect_left a y"
proof (rule ccontr)
  assume "\<not> bisect_left a x \<le> bisect_left a y"
  then have lt: "bisect_left a y < bisect_left a x" by simp
  from bisect_left_spec[OF s, of x] lt have 1: "a ! bisect_left a y < x" by blast
  from bisect_left_spec[OF s, of x] lt have "bisect_left a y < length a" by simp
  with bisect_left_spec[OF s, of y] have "y \<le> a ! bisect_left a y" by blast
  with 1 le show False by simp
qed

lemma bisect_left_below_last:
  assumes s: "sorted a" and ne: "a \<noteq> []" and lt: "x < last a"
  shows "bisect_left a x \<le> length a - 1"
proof (rule ccontr)
  assume "\<not> bisect_left a x \<le> length a - 1"
  with bisect_left_spec[OF s, of x] ne have "bisect_left a x = length a"
    by (cases a) auto
  with bisect_left_spec[OF s, of x] ne have "a ! (length a - 1) < x"
    by (cases a) auto
  with lt ne show False by (simp add: last_conv_nth)
qed


lemma char_index_total:
  "\<exists>c. char_index_from_byte (utf8_byte_offsets content) b = Inr c \<and> c \<le> length content"
proof -
  let ?a = "utf8_byte_offsets content"
  have ne: "?a \<noteq> []" by (simp add: utf8_byte_offsets_def)
  have len: "length ?a - 1 = length content" by (simp add: utf8_byte_offsets_length)
  show ?thesis
  proof (cases "b \<le> 0 \<or> b \<ge> last ?a")
    case True
    then show ?thesis using ne len by (auto simp: char_index_from_byte_def)
  next
    case False
    then have "bisect_left ?a b \<le> length ?a - 1"
      using bisect_left_below_last[OF utf8_byte_offsets_sorted ne, of b] by simp
    with False ne len show ?thesis by (simp add: char_index_from_byte_def)
  qed
qed

lemma char_index_mono:
  assumes le: "b1 \<le> b2"
    and c1: "char_index_from_byte (utf8_byte_offsets content) b1 = Inr c1"
    and c2: "char_index_from_byte (utf8_byte_offsets content) b2 = Inr c2"
  shows "c1 \<le> c2"
proof -
  let ?a = "utf8_byte_offsets content"
  have ne: "?a \<noteq> []" by (simp add: utf8_byte_offsets_def)
  note s = utf8_byte_offsets_sorted[of content]
  show ?thesis
  proof (cases "b1 \<le> 0")
    case True
    with c1 show ?thesis by (simp add: char_index_from_byte_def)
  next
    case pos: False
    show ?thesis
    proof (cases "b2 \<ge> last ?a")
      case True
      with pos le ne c2 have e2: "c2 = length ?a - 1" by (simp add: char_index_from_byte_def)
      show ?thesis
      proof (cases "b1 \<ge> last ?a")
        case True
        with pos ne c1 e2 show ?thesis by (simp add: char_index_from_byte_def)
      next
        case False
        then have "bisect_left ?a b1 \<le> length ?a - 1"
          using bisect_left_below_last[OF s ne, of b1] by simp
        with False pos ne c1 e2 show ?thesis by (simp add: char_index_from_byte_def)
      qed
    next
      case False
      with le have "\<not> b1 \<ge> last ?a" by simp
      with pos ne c1 have e1: "c1 = bisect_left ?a b1" by (simp add: char_index_from_byte_def)
      from False pos le ne c2 have e2: "c2 = bisect_left ?a b2" by (simp add: char_index_from_byte_def)
      from bisect_left_mono[OF s le] e1 e2 show ?thesis by simp
    qed
  qed
qed

definition span_ok :: "pystr \<Rightarrow> span \<Rightarrow> bool" where
  "span_ok content sp \<longleftrightarrow> fst sp \<le> fst (snd sp) \<and> fst (snd sp) \<le> length content"

lemma traverse_spans_ok:
  "wf_node t \<Longrightarrow> bo = utf8_byte_offsets content \<Longrightarrow>
     \<exists>spans. traverse tt bo m t = Inr spans \<and> list_all (span_ok content) spans"
  "list_all wf_node ts \<Longrightarrow> bo = utf8_byte_offsets content \<Longrightarrow>
     \<exists>spans. traverse_children tt bo m ts = Inr spans \<and> list_all (span_ok content) spans"
proof (induction tt bo m t and tt bo m ts rule: traverse_traverse_children.induct)
  case (1 tt bo m ty sb eb cs)
  note bo = \<open>bo = utf8_byte_offsets content\<close>
  from "1.prems" have le: "sb \<le> eb" and wfc: "list_all wf_node cs" by simp_all
  obtain s where s: "char_index_from_byte bo sb = Inr s" "s \<le> length content"
    using char_index_total bo by blast
  obtain e where e: "char_index_from_byte bo eb = Inr e" "e \<le> length content"
    using char_index_total bo by blast
  have se: "s \<le> e" using char_index_mono[OF le] s(1) e(1) bo by blast
  show ?case
  proof (cases "ty \<in> set tt")
    case False
    with "1.IH"(2)[OF False wfc bo] show ?thesis by simp
  next
    case True
    show ?thesis
    proof (cases "int e - int s \<le> m * 2")
      case small: True
      with True s e se show ?thesis by (simp add: span_ok_def)
    next
      case big: False
      from "1.IH"(1)[OF True s(1) e(1) big wfc bo] True s e big show ?thesis by simp
    qed
  qed
next
  case (2 tt bo m)
  then show ?case by simp
next
  case (3 tt bo m c cs)
  note bo = \<open>bo = utf8_byte_offsets content\<close>
  from "3.prems" have wc: "wf_node c" and wcs: "list_all wf_node cs" by simp_all
  from "3.IH"(1)[OF wc bo] obtain xs where xs: "traverse tt bo m c = Inr xs"
    "list_all (span_ok content) xs" by blast
  from "3.IH"(2)[OF xs(1) wcs bo] obtain ys where
    ys: "traverse_children tt bo m cs = Inr ys"
    "list_all (span_ok content) ys" by blast
  from xs ys show ?case by simp
qed

lemma drop_contained_subset: "set (drop_contained chunks) \<subseteq> set chunks"
  by (auto simp: drop_contained_def)

lemma drop_contained_free:
  assumes i: "i < length (drop_contained chunks)" and j: "j < length (drop_contained chunks)"
    and ne: "i \<noteq> j"
  shows "\<not> (fst (drop_contained chunks ! j) \<le> fst (drop_contained chunks ! i) \<and>
            fst (snd (drop_contained chunks ! i)) \<le> fst (snd (drop_contained chunks ! j)))"
proof -
  let ?idx = "filter (\<lambda>i. \<not> contained_in_other chunks i) [0 ..< length chunks]"
  have len: "length (drop_contained chunks) = length ?idx" by (simp add: drop_contained_def)
  have d: "distinct ?idx" by simp
  have ii: "?idx ! i \<in> set ?idx" and jj: "?idx ! j \<in> set ?idx"
    using i j len by (metis nth_mem)+
  have neq: "?idx ! i \<noteq> ?idx ! j" using d i j ne len by (simp add: nth_eq_iff_index_eq)
  have nc: "\<not> contained_in_other chunks (?idx ! i)" using ii by simp
  have jl: "?idx ! j < length chunks" using jj by simp
  have ri: "drop_contained chunks ! i = chunks ! (?idx ! i)"
    using i len by (simp add: drop_contained_def)
  have rj: "drop_contained chunks ! j = chunks ! (?idx ! j)"
    using j len by (simp add: drop_contained_def)
  from nc jl neq show ?thesis
    unfolding ri rj contained_in_other_def list_ex_iff by auto
qed


text \<open>
  A parser result is well formed for a content when every node of the tree it reports
  has \<open>start_byte \<le> end_byte\<close>.
\<close>

definition parser_wf :: "(pystr \<Rightarrow> node option) option \<Rightarrow> pystr \<Rightarrow> bool" where
  "parser_wf parser content \<longleftrightarrow>
     (case parser of
        None \<Rightarrow> True
      | Some parse \<Rightarrow> (case parse content of None \<Rightarrow> True | Some t \<Rightarrow> wf_node t))"

lemma py_slice_in_bounds:
  assumes "s \<le> e" and "e \<le> length xs"
  shows "py_slice xs (int s) (int e) = take (e - s) (drop s xs)"
  using assms by (simp add: py_slice_def py_clamp_def Let_def min_def)

lemma extract_spans_ok:
  assumes "parser_wf parser content"
  shows "\<exists>spans. extract_tree_sitter_chunks content parser file_ext m = Inr spans \<and>
           list_all (span_ok content) spans"
proof (cases parser)
  case None
  then show ?thesis by (simp add: extract_tree_sitter_chunks_def)
next
  case (Some parse)
  show ?thesis
  proof (cases "parse content")
    case None
    with Some show ?thesis by (simp add: extract_tree_sitter_chunks_def)
  next
    case (Some t)
    with \<open>parser = Some parse\<close> assms have wf: "wf_node t" by (simp add: parser_wf_def)
    from traverse_spans_ok(1)[OF wf refl]
    obtain chunks where c: "traverse (get_chunkable_node_types file_ext) (utf8_byte_offsets content) m t = Inr chunks"
      "list_all (span_ok content) chunks" by blast
    have "set (drop_contained (sort_key fst chunks)) \<subseteq> set chunks"
      using drop_contained_subset[of "sort_key fst chunks"] by simp
    with c(2) have "list_all (span_ok content) (drop_contained (sort_key fst chunks))"
      unfolding list_all_iff by blast
    with c(1) Some \<open>parser = Some parse\<close> show ?thesis
      by (simp add: extract_tree_sitter_chunks_def Let_def)
  qed
qed

text \<open>
  Claim C9.  On the byte offsets of any content, the byte-to-character mapping returns
  (it does not raise) a character index of at most \<open>len(content)\<close> and is monotone
  in the byte position; and when every node the parser reports has
  \<open>start_byte \<le> end_byte\<close>, the extraction returns spans with
  \<open>0 \<le> start_char \<le> end_char \<le> len(content)\<close>, whose slice of the content is
  therefore the characters from \<open>start_char\<close> up to \<open>end_char\<close>.
\<close>

theorem byte_to_char_mapping_safe:
  assumes "parser_wf parser content"
  shows "(\<forall>b. \<exists>c. char_index_from_byte (utf8_byte_offsets content) b = Inr c \<and> c \<le> length content) \<and>
         (\<forall>b1 b2 c1 c2. b1 \<le> b2 \<and>
              char_index_from_byte (utf8_byte_offsets content) b1 = Inr c1 \<and>
              char_index_from_byte (utf8_byte_offsets content) b2 = Inr c2 \<longrightarrow> c1 \<le> c2) \<and>
         (\<exists>spans. extract_tree_sitter_chunks content parser file_ext max_chunk_chars = Inr spans \<and>
            (\<forall>sp \<in> set spans.
               fst sp \<le> fst (snd sp) \<and> fst (snd sp) \<le> length content \<and>
               py_slice content (int (fst sp)) (int (fst (snd sp))) =
                 take (fst (snd sp) - fst sp) (drop (fst sp) content)))"
proof (intro conjI)
  show "\<forall>b. \<exists>c. char_index_from_byte (utf8_byte_offsets content) b = Inr c \<and> c \<le> length content"
    using char_index_total by blast
  show "\<forall>b1 b2 c1 c2. b1 \<le> b2 \<and>
              char_index_from_byte (utf8_byte_offsets content) b1 = Inr c1 \<and>
              char_index_from_byte (utf8_byte_offsets content) b2 = Inr c2 \<longrightarrow> c1 \<le> c2"
    using char_index_mono by blast
  from extract_spans_ok[OF assms, of file_ext max_chunk_chars]
  obtain spans where sp: "extract_tree_sitter_chunks content parser file_ext max_chunk_chars = Inr spans"
    "list_all (span_ok content) spans" by blast
  have "\<forall>sp \<in> set spans.
               fst sp \<le> fst (snd sp) \<and> fst (snd sp) \<le> length content \<and>
               py_slice content (int (fst sp)) (int (fst (snd sp))) =
                 take (fst (snd sp) - fst sp) (drop (fst sp) content)"
  proof
    fix x assume "x \<in> set spans"
    with sp(2) have "span_ok content x" by (simp add: list_all_iff)
    then have "fst x \<le> fst (snd x)" "fst (snd x) \<le> length content" by (simp_all add: span_ok_def)
    with py_slice_in_bounds[OF this]
    show "fst x \<le> fst (snd x) \<and> fst (snd x) \<le> length content \<and>
               py_slice content (int (fst x)) (int (fst (snd x))) =
                 take (fst (snd x) - fst x) (drop (fst x) content)" by simp
  qed
  with sp(1) show "\<exists>spans. extract_tree_sitter_chunks content parser file_ext max_chunk_chars = Inr spans \<and>
            (\<forall>sp \<in> set spans.
               fst sp \<le> fst (snd sp) \<and> fst (snd sp) \<le> length content \<and>
               py_slice content (int (fst sp)) (int (fst (snd sp))) =
                 take (fst (snd sp) - fst sp) (drop (fst sp) content))" by blast
qed


lemma offsets_example: "utf8_byte_offsets [100, 233, 102] = [0, 1, 3, 4]"
  by (simp add: utf8_byte_offsets_def utf8_len_def)

lemma char_index_example1: "char_index_from_byte [0, 1, 3, 4] 1 = Inr 1"
  by (simp add: char_index_from_byte_def bisect_left_def bisect_loop.simps Let_def)

lemma char_index_example3: "char_index_from_byte [0, 1, 3, 4] 3 = Inr 2"
  by (simp add: char_index_from_byte_def bisect_left_def bisect_loop.simps Let_def)

lemma char_index_example4: "char_index_from_byte [0, 1, 3, 4] 4 = Inr 3"
  by (simp add: char_index_from_byte_def)

lemma drop_contained_single: "drop_contained [x] = [x]"
  by (simp add: drop_contained_def contained_in_other_def)

lemma extract_example:
  "extract_tree_sitter_chunks [100, 233, 102]
     (Some (\<lambda>c. Some (Node ''module'' 0 4 [Node ''function_definition'' 1 4 []]))) ''.py'' 1200
   = Inr [(1, 3, ''function_definition'')]"
  by (simp add: extract_tree_sitter_chunks_def encodable_def get_chunkable_node_types_def
        offsets_example char_index_example1 char_index_example4 drop_contained_single)

theorem byte_to_char_mapping_safe_witness:
  "parser_wf (Some (\<lambda>c. Some (Node ''module'' 0 4 [Node ''function_definition'' 1 4 []]))) [100, 233, 102] \<and>
   char_index_from_byte (utf8_byte_offsets [100, 233, 102]) 1 = Inr 1 \<and>
   char_index_from_byte (utf8_byte_offsets [100, 233, 102]) 3 = Inr 2 \<and>
   extract_tree_sitter_chunks [100, 233, 102]
     (Some (\<lambda>c. Some (Node ''module'' 0 4 [Node ''function_definition'' 1 4 []]))) ''.py'' 1200
     = Inr [(1, 3, ''function_definition'')] \<and>
   py_slice [100::nat, 233, 102] (int 1) (int 3) = take (3 - 1) (drop 1 [100, 233, 102])"
proof -
  let ?P = "Some (\<lambda>c::pystr. Some (Node ''module'' 0 4 [Node ''function_definition'' 1 4 []]))"
  have h: "parser_wf ?P [100, 233, 102]" by (simp add: parser_wf_def)
  have a: "char_index_from_byte (utf8_byte_offsets [100, 233, 102]) 1 = Inr 1"
    by (simp only: offsets_example char_index_example1)
  have b: "char_index_from_byte (utf8_byte_offsets [100, 233, 102]) 3 = Inr 2"
    by (simp only: offsets_example char_index_example3)
  from byte_to_char_mapping_safe[OF h, of "''.py''" 1200]
  obtain spans where e: "extract_tree_sitter_chunks [100, 233, 102] ?P ''.py'' 1200 = Inr spans"
    and sl: "\<forall>sp \<in> set spans.
      fst sp \<le> fst (snd sp) \<and> fst (snd sp) \<le> length [100::nat, 233, 102] \<and>
      py_slice [100::nat, 233, 102] (int (fst sp)) (int (fst (snd sp))) =
        take (fst (snd sp) - fst sp) (drop (fst sp) [100, 233, 102])"
    by blast
  from e have "spans = [(1, 3, ''function_definition'')]" by (simp only: extract_example sum.inject)
  with sl have "py_slice [100::nat, 233, 102] (int 1) (int 3) = take (3 - 1) (drop 1 [100, 233, 102])"
    by simp
  with h a b extract_example show ?thesis by blast
qed

text \<open>
  Claim C5.  The spans returned by the syntax-aware tier are containment-free: of two
  returned spans at different positions, neither character range lies within the other.
\<close>

theorem tier1_containment_free:
  assumes "extract_tree_sitter_chunks content parser file_ext max_chunk_chars = Inr spans"
    and "i < length spans" and "j < length spans" and "i \<noteq> j"
  shows "\<not> (fst (spans ! j) \<le> fst (spans ! i) \<and> fst (snd (spans ! i)) \<le> fst (snd (spans ! j)))"
proof (cases "spans = []")
  case True
  with assms(2) show ?thesis by simp
next
  case False
  with assms(1) obtain chunks where "spans = drop_contained (sort_key fst chunks)"
    by (auto simp: extract_tree_sitter_chunks_def Let_def split: option.splits if_splits sum.splits)
  with drop_contained_free[of i "sort_key fst chunks" j] assms(2-4) show ?thesis by simp
qed

lemma offsets_example2:
  "utf8_byte_offsets [100, 233, 102, 10, 100, 101, 102] = [0, 1, 3, 4, 5, 6, 7, 8]"
  by (simp add: utf8_byte_offsets_def utf8_len_def)

lemma char_index_example2:
  "char_index_from_byte [0, 1, 3, 4, 5, 6, 7, 8] 0 = Inr 0"
  "char_index_from_byte [0, 1, 3, 4, 5, 6, 7, 8] 4 = Inr 3"
  "char_index_from_byte [0, 1, 3, 4, 5, 6, 7, 8] 5 = Inr 4"
  "char_index_from_byte [0, 1, 3, 4, 5, 6, 7, 8] 6 = Inr 5"
  "char_index_from_byte [0, 1, 3, 4, 5, 6, 7, 8] 7 = Inr 6"
  "char_index_from_byte [0, 1, 3, 4, 5, 6, 7, 8] 8 = Inr 7"
  by (simp_all add: char_index_from_byte_def bisect_left_def bisect_loop.simps Let_def)

lemma drop_contained_example2:
  "drop_contained [(0, 3, ''function_definition''), (4, 7, ''class_definition''),
                   (5, 6, ''function_definition'')]
   = [(0, 3, ''function_definition''), (4, 7, ''class_definition'')]"
  by (simp add: drop_contained_def contained_in_other_def upt_rec)

lemma extract_example2:
  "extract_tree_sitter_chunks [100, 233, 102, 10, 100, 101, 102]
     (Some (\<lambda>c. Some (Node ''module'' 0 8
        [Node ''class_definition'' 5 8 [], Node ''function_definition'' 0 4 [],
         Node ''function_definition'' 6 7 []]))) ''.py'' 1200
   = Inr [(0, 3, ''function_definition''), (4, 7, ''class_definition'')]"
  by (simp add: extract_tree_sitter_chunks_def encodable_def get_chunkable_node_types_def
        offsets_example2 char_index_example2 drop_contained_example2)

theorem tier1_containment_free_witness:
  "\<not> (fst ([(0::nat, 3::nat, ''function_definition''), (4, 7, ''class_definition'')] ! 1)
        \<le> fst ([(0::nat, 3::nat, ''function_definition''), (4, 7, ''class_definition'')] ! 0) \<and>
      fst (snd ([(0::nat, 3::nat, ''function_definition''), (4, 7, ''class_definition'')] ! 0))
        \<le> fst (snd ([(0::nat, 3::nat, ''function_definition''), (4, 7, ''class_definition'')] ! 1)))"
proof -
  have "(0::nat) < length [(0::nat, 3::nat, ''function_definition''), (4, 7, ''class_definition'')]"
    "(1::nat) < length [(0::nat, 3::nat, ''function_definition''), (4, 7, ''class_definition'')]"
    "(0::nat) \<noteq> 1" by simp_all
  from tier1_containment_free[OF extract_example2 this] show ?thesis .
qed


section \<open>Framework detection (\<open>repository_analyzer.RepositoryAnalyzer._detect_framework\<close>)\<close>

text \<open>\<open>pat in text\<close> on sequences: \<open>pat\<close> occurs in \<open>text\<close> as a contiguous run.\<close>

fun starts_with :: "'a list \<Rightarrow> 'a list \<Rightarrow> bool" where
  "starts_with [] ys = True"
| "starts_with (x # xs) [] = False"
| "starts_with (x # xs) (y # ys) = (x = y \<and> starts_with xs ys)"

fun py_in :: "'a list \<Rightarrow> 'a list \<Rightarrow> bool" where
  "py_in pat [] = (pat = [])"
| "py_in pat (c # cs) = (starts_with pat (c # cs) \<or> py_in pat cs)"

text \<open>
  One entry of \<open>FRAMEWORK_PATTERNS\<close>; the table is kept as a list in the dict's
  order, which is the order the scorer visits the frameworks in.  \<open>fw_package_deps\<close> is
  \<open>None\<close> for an entry without the \<open>package_deps\<close> key.
\<close>

record framework =
  fw_name :: string
  fw_files :: "string list"
  fw_imports :: "string list"
  fw_indicators :: "string list"
  fw_package_deps :: "string list option"

definition FRAMEWORK_PATTERNS :: "framework list" where
  "FRAMEWORK_PATTERNS =
    [\<lparr>fw_name = ''fastapi'', fw_files = [''main.py'', ''app.py''],
       fw_imports = [''from fastapi import'', ''import fastapi''],
       fw_indicators = [''FastAPI('', ''@app.get'', ''@app.post''],
       fw_package_deps = None\<rparr>,
     \<lparr>fw_name = ''flask'', fw_files = [''app.py'', ''wsgi.py''],
       fw_imports = [''from flask import'', ''import flask''],
       fw_indicators = [''Flask('', ''@app.route''],
       fw_package_deps = None\<rparr>,
     \<lparr>fw_name = ''django'', fw_files = [''manage.py'', ''settings.py'', ''wsgi.py''],
       fw_imports = [''from django'', ''import django''],
       fw_indicators = [''INSTALLED_APPS'', ''MIDDLEWARE''],
       fw_package_deps = None\<rparr>,
     \<lparr>fw_name = ''react'', fw_files = [''package.json''],
       fw_imports = [''from react'', ''from '' @ [CHR 0x27] @ ''react'' @ [CHR 0x27],
                     ''import react'', ''import '' @ [CHR 0x27] @ ''react'' @ [CHR 0x27]],
       fw_indicators = [''React.Component'', ''useState'', ''useEffect''],
       fw_package_deps = Some [''react'', ''react-dom'']\<rparr>,
     \<lparr>fw_name = ''nextjs'', fw_files = [''next.config.js'', ''next.config.ts''],
       fw_imports = [''from next'', ''from '' @ [CHR 0x27] @ ''next'' @ [CHR 0x27]],
       fw_indicators = [''export default function'', ''getServerSideProps'', ''getStaticProps''],
       fw_package_deps = Some [''next'']\<rparr>,
     \<lparr>fw_name = ''vue'', fw_files = [''vue.config.js''],
       fw_imports = [''from vue'', ''from '' @ [CHR 0x27] @ ''vue'' @ [CHR 0x27]],
       fw_indicators = [''createApp'', ''Vue.component''],
       fw_package_deps = Some [''vue'']\<rparr>,
     \<lparr>fw_name = ''angular'', fw_files = [''angular.json''],
       fw_imports = [''from @angular''],
       fw_indicators = [''@Component'', ''@NgModule''],
       fw_package_deps = Some [''@angular/core'']\<rparr>,
     \<lparr>fw_name = ''express'', fw_files = [''server.js'', ''app.js''],
       fw_imports = [''from express'', ''from '' @ [CHR 0x27] @ ''express'' @ [CHR 0x27],
                     ''require('' @ [CHR 0x22] @ ''express'' @ [CHR 0x22] @ '')'',
                     ''require('' @ [CHR 0x27] @ ''express'' @ [CHR 0x27] @ '')''],
       fw_indicators = [''express()'', ''app.listen''],
       fw_package_deps = Some [''express'']\<rparr>,
     \<lparr>fw_name = ''spring-boot'', fw_files = [''pom.xml'', ''build.gradle''],
       fw_imports = [''import org.springframework''],
       fw_indicators = [''@SpringBootApplication'', ''@RestController'', ''@Service''],
       fw_package_deps = None\<rparr>,
     \<lparr>fw_name = ''laravel'', fw_files = [''artisan'', ''composer.json''],
       fw_imports = [''use Illuminate''],
       fw_indicators = [''namespace App'' @ [CHR 0x5C], ''Route::''],
       fw_package_deps = None\<rparr>]"

text \<open>
  What the scorer reads of a project: the names of all entries below the root (so
  \<open>rglob(file_pattern)\<close> finds something exactly when the pattern is one of them), the
  contents of the code files per language as \<open>files_map\<close> holds them (a file that cannot
  be read is \<open>None\<close>; contents are the text's UTF-8 bytes, in which an ASCII pattern
  occurs exactly when it occurs in the text), and the root's \<open>package.json\<close>: \<open>None\<close>
  when it does not exist, \<open>Some None\<close> when loading it raises, and otherwise the keys
  of \<open>dependencies\<close> merged with \<open>devDependencies\<close>.
\<close>

record repo =
  entry_names :: "string list"
  files_map :: "(string \<times> string option list) list"
  package_json :: "string list option option"

text \<open>
  The score of one framework in \<open>_detect_framework\<close>: 2 per marker file found, per
  file (the first 20 of each language) 3 if some import pattern occurs and 1 per
  indicator that occurs, and 5 per designated dependency listed in \<open>package.json\<close>.
\<close>

definition marker_score :: "framework \<Rightarrow> repo \<Rightarrow> int" where
  "marker_score fw p =
     sum_list (map (\<lambda>file_pattern. if file_pattern \<in> set (entry_names p) then 2 else 0)
                   (fw_files fw))"

fun file_score :: "framework \<Rightarrow> string option \<Rightarrow> int" where
  "file_score fw None = 0"
| "file_score fw (Some content) =
     (if list_ex (\<lambda>import_pattern. py_in import_pattern content) (fw_imports fw) then 3 else 0) +
     sum_list (map (\<lambda>indicator. if py_in indicator content then 1 else 0) (fw_indicators fw))"

definition code_score :: "framework \<Rightarrow> repo \<Rightarrow> int" where
  "code_score fw p =
     sum_list (map (\<lambda>(language, files). sum_list (map (file_score fw) (take 20 files)))
                   (files_map p))"

definition deps_score :: "framework \<Rightarrow> repo \<Rightarrow> int" where
  "deps_score fw p =
     (case fw_package_deps fw of
        None \<Rightarrow> 0
      | Some package_deps \<Rightarrow>
          (case package_json p of
             None \<Rightarrow> 0
           | Some None \<Rightarrow> 0
           | Some (Some deps) \<Rightarrow>
               sum_list (map (\<lambda>dep. if dep \<in> set deps then 5 else 0) package_deps)))"

definition framework_score :: "framework \<Rightarrow> repo \<Rightarrow> int" where
  "framework_score fw p = marker_score fw p + code_score fw p + deps_score fw p"

definition all_scores :: "repo \<Rightarrow> (string \<times> int) list" where
  "all_scores p = map (\<lambda>fw. (fw_name fw, framework_score fw p)) FRAMEWORK_PATTERNS"

text \<open>
  Frameworks with a positive score are sorted by score, highest first (Python's sort is
  stable, also with \<open>reverse=True\<close>), and the first is returned.
\<close>

definition detect_framework :: "repo \<Rightarrow> string option" where
  "detect_framework p =
     (let detected_frameworks = filter (\<lambda>(framework, score). score > 0) (all_scores p)
      in case sort_key (\<lambda>x. - snd x) detected_frameworks of
           [] \<Rightarrow> None
         | (framework, score) # rest \<Rightarrow> Some framework)"

text \<open>
  The situation of claim C2: a root \<open>package.json\<close> is among the entries below the
  root; no marker file of any framework other than \<open>package.json\<close> exists; no import
  pattern or indicator of any framework occurs in a scanned file; and \<open>package.json\<close>
  lists \<open>react\<close> and no other designated dependency.
\<close>

definition repo_consistent :: "repo \<Rightarrow> bool" where
  "repo_consistent p \<longleftrightarrow> (package_json p = None \<or> ''package.json'' \<in> set (entry_names p))"

definition no_other_markers :: "repo \<Rightarrow> bool" where
  "no_other_markers p \<longleftrightarrow>
     list_all (\<lambda>fw. list_all (\<lambda>f. f = ''package.json'' \<or> f \<notin> set (entry_names p)) (fw_files fw))
       FRAMEWORK_PATTERNS"

definition no_code_signals :: "repo \<Rightarrow> bool" where
  "no_code_signals p \<longleftrightarrow>
     list_all (\<lambda>(language, files).
        list_all (\<lambda>f. case f of
                     None \<Rightarrow> True
                   | Some content \<Rightarrow>
                       list_all (\<lambda>fw. list_all (\<lambda>pat. \<not> py_in pat content)
                                           (fw_imports fw @ fw_indicators fw))
                         FRAMEWORK_PATTERNS)
          (take 20 files))
       (files_map p)"

definition only_react_dep :: "repo \<Rightarrow> bool" where
  "only_react_dep p \<longleftrightarrow>
     (case package_json p of
        Some (Some deps) \<Rightarrow>
          ''react'' \<in> set deps \<and>
          list_all (\<lambda>d. d \<notin> set deps) [''react-dom'', ''next'', ''vue'', ''@angular/core'', ''express'']
      | _ \<Rightarrow> False)"

definition example_repo :: repo where
  "example_repo = \<lparr>entry_names = [''package.json''], files_map = [],
                    package_json = Some (Some [''react''])\<rparr>"

lemma sum_list_all_zero: "(\<forall>x \<in> set xs. f x = (0::int)) \<Longrightarrow> sum_list (map f xs) = 0"
  by (induction xs) simp_all

lemma file_score_zero:
  assumes "case f of None \<Rightarrow> True
           | Some content \<Rightarrow> list_all (\<lambda>pat. \<not> py_in pat content) (fw_imports fw @ fw_indicators fw)"
  shows "file_score fw f = 0"
proof (cases f)
  case None
  then show ?thesis by simp
next
  case (Some content)
  with assms have a: "\<forall>pat \<in> set (fw_imports fw). \<not> py_in pat content"
    and b: "\<forall>pat \<in> set (fw_indicators fw). \<not> py_in pat content"
    by (simp_all add: list_all_iff)
  from a have "\<not> list_ex (\<lambda>import_pattern. py_in import_pattern content) (fw_imports fw)"
    by (simp add: list_ex_iff)
  moreover from b have "sum_list (map (\<lambda>indicator. if py_in indicator content then 1 else (0::int))
      (fw_indicators fw)) = 0" by (intro sum_list_all_zero) simp
  ultimately show ?thesis using Some by simp
qed

lemma code_score_zero:
  assumes "no_code_signals p" and "fw \<in> set FRAMEWORK_PATTERNS"
  shows "code_score fw p = 0"
proof -
  have "sum_list (map (file_score fw) (take 20 files)) = 0"
    if "(language, files) \<in> set (files_map p)" for language files
  proof -
    have "file_score fw f = 0" if "f \<in> set (take 20 files)" for f
    proof (rule file_score_zero)
      from assms(1) \<open>(language, files) \<in> set (files_map p)\<close> that
      have "case f of None \<Rightarrow> True
           | Some content \<Rightarrow> list_all (\<lambda>fw. list_all (\<lambda>pat. \<not> py_in pat content)
                                           (fw_imports fw @ fw_indicators fw)) FRAMEWORK_PATTERNS"
        unfolding no_code_signals_def list_all_iff by fastforce
      with assms(2) show "case f of None \<Rightarrow> True
           | Some content \<Rightarrow> list_all (\<lambda>pat. \<not> py_in pat content) (fw_imports fw @ fw_indicators fw)"
        by (cases f) (simp_all add: list_all_iff)
    qed
    then show ?thesis by (intro sum_list_all_zero) simp
  qed
  then have "\<forall>x \<in> set (files_map p).
      (case x of (language, files) \<Rightarrow> sum_list (map (file_score fw) (take 20 files))) = 0"
    by auto
  then show ?thesis unfolding code_score_def by (rule sum_list_all_zero)
qed

lemma framework_names:
  "map fw_name FRAMEWORK_PATTERNS =
     [''fastapi'', ''flask'', ''django'', ''react'', ''nextjs'', ''vue'', ''angular'', ''express'',
      ''spring-boot'', ''laravel'']"
  by (simp add: FRAMEWORK_PATTERNS_def)

lemma marker_deps_scores:
  assumes "repo_consistent p" and "no_other_markers p" and "only_react_dep p"
  shows "map (\<lambda>fw. marker_score fw p + deps_score fw p) FRAMEWORK_PATTERNS =
           [0, 0, 0, 7, 0, 0, 0, 0, 0, 0]"
proof -
  from assms(3) obtain deps where d: "package_json p = Some (Some deps)" "''react'' \<in> set deps"
    "''react-dom'' \<notin> set deps" "''next'' \<notin> set deps" "''vue'' \<notin> set deps"
    "''@angular/core'' \<notin> set deps" "''express'' \<notin> set deps"
    by (auto simp: only_react_dep_def split: option.splits)
  from assms(1) d(1) have pj: "''package.json'' \<in> set (entry_names p)"
    by (simp add: repo_consistent_def)
  from assms(2) have m: "marker_score fw p = (if fw_name fw = ''react'' then 2 else 0)"
    if "fw \<in> set FRAMEWORK_PATTERNS" for fw
    using that pj unfolding no_other_markers_def marker_score_def FRAMEWORK_PATTERNS_def
    by auto
  have "map (\<lambda>fw. marker_score fw p + deps_score fw p) FRAMEWORK_PATTERNS =
        map (\<lambda>fw. (if fw_name fw = ''react'' then 2 else 0) + deps_score fw p) FRAMEWORK_PATTERNS"
    by (rule map_cong) (simp_all add: m)
  also have "\<dots> = [0, 0, 0, 7, 0, 0, 0, 0, 0, 0]"
    using d by (simp add: FRAMEWORK_PATTERNS_def deps_score_def)
  finally show ?thesis .
qed


lemma map_pair_zip: "map (\<lambda>x. (f x, g x)) xs = zip (map f xs) (map g xs)"
  by (induction xs) simp_all

text \<open>
  Claim C2, as amended.  In that situation react scores exactly 7 (2 for the marker file
  \<open>package.json\<close>, which is react's own marker, and 5 for the dependency), every other
  framework scores 0, and the detected framework is react.
\<close>

theorem react_dependency_scores:
  assumes "repo_consistent p" and "no_other_markers p" and "no_code_signals p"
    and "only_react_dep p"
  shows "all_scores p =
           [(''fastapi'', 0), (''flask'', 0), (''django'', 0), (''react'', 7), (''nextjs'', 0),
            (''vue'', 0), (''angular'', 0), (''express'', 0), (''spring-boot'', 0), (''laravel'', 0)] \<and>
         detect_framework p = Some ''react''"
proof -
  have "map (\<lambda>fw. framework_score fw p) FRAMEWORK_PATTERNS =
        map (\<lambda>fw. marker_score fw p + deps_score fw p) FRAMEWORK_PATTERNS"
    by (rule map_cong) (simp_all add: framework_score_def code_score_zero[OF assms(3)])
  then have sc: "map (\<lambda>fw. framework_score fw p) FRAMEWORK_PATTERNS = [0, 0, 0, 7, 0, 0, 0, 0, 0, 0]"
    using marker_deps_scores[OF assms(1,2,4)] by simp
  have all: "all_scores p =
           [(''fastapi'', 0), (''flask'', 0), (''django'', 0), (''react'', 7), (''nextjs'', 0),
            (''vue'', 0), (''angular'', 0), (''express'', 0), (''spring-boot'', 0), (''laravel'', 0)]"
    unfolding all_scores_def map_pair_zip sc framework_names by simp
  have "detect_framework p = Some ''react''"
    unfolding detect_framework_def all by simp
  with all show ?thesis by simp
qed

definition example_repo2 :: repo where
  "example_repo2 = \<lparr>entry_names = [''package.json'', ''index.js''],
                     files_map = [(''javascript'', [Some ''console.log(1)'', None])],
                     package_json = Some (Some [''lodash'', ''react''])\<rparr>"

theorem react_dependency_scores_witness:
  "repo_consistent example_repo2 \<and> no_other_markers example_repo2 \<and>
   no_code_signals example_repo2 \<and> only_react_dep example_repo2 \<and>
   all_scores example_repo2 =
           [(''fastapi'', 0), (''flask'', 0), (''django'', 0), (''react'', 7), (''nextjs'', 0),
            (''vue'', 0), (''angular'', 0), (''express'', 0), (''spring-boot'', 0), (''laravel'', 0)] \<and>
   detect_framework example_repo2 = Some ''react''"
proof -
  have 1: "repo_consistent example_repo2" by (simp add: repo_consistent_def example_repo2_def)
  have 2: "no_other_markers example_repo2"
    by (simp add: no_other_markers_def example_repo2_def FRAMEWORK_PATTERNS_def)
  have 3: "no_code_signals example_repo2"
    by (simp add: no_code_signals_def example_repo2_def FRAMEWORK_PATTERNS_def)
  have 4: "only_react_dep example_repo2" by (simp add: only_react_dep_def example_repo2_def)
  from react_dependency_scores[OF 1 2 3 4] 1 2 3 4 show ?thesis by simp
qed

text \<open>
  Claim C2 as stated fails: for the project that holds nothing but a \<open>package.json\<close>
  listing \<open>react\<close>, the score of react is 7, not 5.
\<close>

theorem react_score_is_not_five:
  "repo_consistent example_repo \<and> no_other_markers example_repo \<and>
   no_code_signals example_repo \<and> only_react_dep example_repo \<and>
   map_of (all_scores example_repo) ''react'' = Some 7 \<and>
   map_of (all_scores example_repo) ''react'' \<noteq> Some 5"
proof -
  have 1: "repo_consistent example_repo" by (simp add: repo_consistent_def example_repo_def)
  have 2: "no_other_markers example_repo"
    by (simp add: no_other_markers_def example_repo_def FRAMEWORK_PATTERNS_def)
  have 3: "no_code_signals example_repo"
    by (simp add: no_code_signals_def example_repo_def)
  have 4: "only_react_dep example_repo" by (simp add: only_react_dep_def example_repo_def)
  have "framework_score (FRAMEWORK_PATTERNS ! 3) example_repo = 7"
    by (simp add: FRAMEWORK_PATTERNS_def framework_score_def marker_score_def code_score_def
          deps_score_def example_repo_def)
  have "all_scores example_repo =
           [(''fastapi'', 0), (''flask'', 0), (''django'', 0), (''react'', 7), (''nextjs'', 0),
            (''vue'', 0), (''angular'', 0), (''express'', 0), (''spring-boot'', 0), (''laravel'', 0)]"
    by (simp add: all_scores_def FRAMEWORK_PATTERNS_def framework_score_def marker_score_def
          code_score_def deps_score_def example_repo_def)
  then have "map_of (all_scores example_repo) ''react'' = Some 7" by simp
  with 1 2 3 4 show ?thesis by simp
qed


section \<open>Vector store: rows, session and search (\<open>vector_store.vector_search_project\<close>)\<close>

text \<open>
  A row of \<open>project_code_chunks\<close>, a row of \<open>projects\<close> as far as the indexing and
  search code reads and writes it, and the database: the chunk table, the next value of
  the chunk \<open>id\<close> sequence, the projects by id, and the progress rows.
\<close>

record chunk_rec =
  row_id :: int
  row_project_id :: int
  row_path :: string
  row_chunk_index :: int
  row_start_line :: "int option"
  row_end_line :: "int option"
  row_content :: pystr
  row_content_sha256 :: "string option"
  row_embedding :: vec

record project_rec =
  owner_id :: int
  preprocessing_status :: string
  analysis_saved :: bool

record database =
  chunk_table :: "chunk_rec list"
  next_chunk_id :: int
  project_table :: "int \<Rightarrow> project_rec option"
  progress_table :: "(int \<times> string) list"

text \<open>
  A SQLAlchemy session over one connection, without autocommit: statements change the
  \<open>pending\<close> state of the open transaction, \<open>commit\<close> makes it the committed state, and
  \<open>rollback\<close> (also what closing the session does) discards it.
\<close>

record session =
  committed :: database
  pending :: database

definition commit :: "session \<Rightarrow> session" where
  "commit db = db\<lparr>committed := pending db\<rparr>"

definition rollback :: "session \<Rightarrow> session" where
  "rollback db = db\<lparr>pending := committed db\<rparr>"

text \<open>
  The surroundings of the vector store: the \<open>VECTOR_EMBEDDING_DIM\<close> variable when it is
  all digits, the configured embedding model, and the exception
  \<open>ensure_pgvector_schema\<close> raises for a dimension, if any.
\<close>

record store_env =
  env_dim :: "nat option"
  embedding_model :: string
  ensure_schema_error :: "int \<Rightarrow> error option"

definition infer_embedding_dim :: "store_env \<Rightarrow> int" where
  "infer_embedding_dim env =
     (case env_dim env of
        Some d \<Rightarrow> int d
      | None \<Rightarrow> if embedding_model env = ''text-embedding-ada-002'' then 1536 else 0)"

record ChunkRow =
  cr_id :: int
  cr_path :: string
  cr_start_line :: "int option"
  cr_end_line :: "int option"
  cr_content :: pystr
  cr_score :: real

text \<open>
  The query of \<open>vector_search_project\<close>: rows of the project (and, with a non-empty
  prefix, with \<open>path LIKE prefix%\<close>), ordered by the L2 distance \<open><->\<close> to the query
  vector, \<open>LIMIT k\<close>.  The database refuses a negative limit and vectors of different
  dimensions.  Rows at equal distance come in an order SQL leaves open; the model keeps
  the table's order among them.  The distance of a row is never NULL, the embedding
  column being \<open>NOT NULL\<close>, so the score is always the distance.
\<close>

definition l2_distance :: "vec \<Rightarrow> vec \<Rightarrow> real" where
  "l2_distance a b = sqrt (sum_list (map (\<lambda>(x, y). (x - y)\<^sup>2) (zip a b)))"

fun sql_like :: "string \<Rightarrow> string \<Rightarrow> bool" where
  "sql_like [] s = (s = [])"
| "sql_like (p # ps) s =
     (if p = CHR ''%'' then
        (sql_like ps s \<or> (case s of [] \<Rightarrow> False | c # cs \<Rightarrow> sql_like (p # ps) cs))
      else if p = CHR ''_'' then
        (case s of [] \<Rightarrow> False | c # cs \<Rightarrow> sql_like ps cs)
      else if p = CHR 0x5C then
        (case ps of
           [] \<Rightarrow> False
         | q # qs \<Rightarrow> (case s of [] \<Rightarrow> False | c # cs \<Rightarrow> c = q \<and> sql_like qs cs))
      else (case s of [] \<Rightarrow> False | c # cs \<Rightarrow> c = p \<and> sql_like ps cs))"


definition run_search_query ::
  "chunk_rec list \<Rightarrow> int \<Rightarrow> vec \<Rightarrow> int \<Rightarrow> string option \<Rightarrow> error + ChunkRow list" where
  "run_search_query table project_id qvec k path_prefix =
     (let selected =
            filter (\<lambda>r. row_project_id r = project_id \<and>
                        (case path_prefix of
                           None \<Rightarrow> True
                         | Some pre \<Rightarrow> pre = [] \<or> sql_like (pre @ ''%'') (row_path r)))
              table
      in if k < 0 then Inl DataError
         else if list_ex (\<lambda>r. length (row_embedding r) \<noteq> length qvec) selected then Inl DataError
         else Inr (map (\<lambda>r. \<lparr>cr_id = row_id r, cr_path = row_path r,
                               cr_start_line = row_start_line r, cr_end_line = row_end_line r,
                               cr_content = row_content r,
                               cr_score = l2_distance (row_embedding r) qvec\<rparr>)
                       (take (nat k)
                          (sort_key (\<lambda>r. l2_distance (row_embedding r) qvec) selected))))"

definition vector_search_project ::
  "store_env \<Rightarrow> provider \<Rightarrow> session \<Rightarrow> int \<Rightarrow> pystr \<Rightarrow> int \<Rightarrow> string option \<Rightarrow> world
     \<Rightarrow> ((error + ChunkRow list) \<times> world) option" where
  "vector_search_project env p db project_id query k path_prefix w =
     (case embed_texts_openai p [query] 1 3 (3 / 2) w of
        None \<Rightarrow> None
      | Some (Inl e, w') \<Rightarrow> Some (Inl e, w')
      | Some (Inr vs, w') \<Rightarrow>
          (case vs of
             [] \<Rightarrow> Some (Inl IndexError, w')
           | qvec # _ \<Rightarrow>
               (let dim0 = infer_embedding_dim env;
                    dim = (if dim0 \<le> 0 then int (length qvec) else dim0)
                in case ensure_schema_error env dim of
                     Some e \<Rightarrow> Some (Inl e, w')
                   | None \<Rightarrow>
                       Some (run_search_query (chunk_table (pending db)) project_id qvec k path_prefix,
                             w'))))"

text \<open>
  The endpoint \<open>search_project_code\<close>: 404 for a project that is absent or not the
  user's, 400 unless its status is \<open>completed\<close>, then the search with
  \<open>k = min(top_k, 50)\<close>; any exception of the search is answered with 500.
\<close>

datatype http_error = HTTP nat

definition search_project_code ::
  "store_env \<Rightarrow> provider \<Rightarrow> session \<Rightarrow> int \<Rightarrow> int \<Rightarrow> pystr \<Rightarrow> int \<Rightarrow> world
     \<Rightarrow> ((http_error + ChunkRow list) \<times> world) option" where
  "search_project_code env p db current_user project_id query top_k w =
     (case project_table (pending db) project_id of
        None \<Rightarrow> Some (Inl (HTTP 404), w)
      | Some db_project \<Rightarrow>
          if owner_id db_project \<noteq> current_user then Some (Inl (HTTP 404), w)
          else if preprocessing_status db_project \<noteq> ''completed'' then Some (Inl (HTTP 400), w)
          else
            (case vector_search_project env p db project_id query (min top_k 50) None w of
               None \<Rightarrow> None
             | Some (Inl e, w') \<Rightarrow> Some (Inl (HTTP 500), w')
             | Some (Inr chunks, w') \<Rightarrow> Some (Inr chunks, w')))"

lemma embed_loop_returns:
  assumes bs: "0 < bs"
  shows "0 \<le> i \<Longrightarrow> \<exists>r. embed_loop p bs mr bo texts i out w = Some r"
proof (induction "length texts - nat i" arbitrary: i out w rule: less_induct)
  case less
  show ?case
  proof (cases "i < int (length texts)")
    case False
    then show ?thesis by (subst embed_loop.simps) simp
  next
    case True
    obtain r1 w1 where rb: "retry_batch p mr bo (py_slice texts i (i + bs)) 0 w = (r1, w1)"
      by fastforce
    show ?thesis
    proof (cases r1)
      case (Inl e)
      with rb True show ?thesis by (subst embed_loop.simps) simp
    next
      case (Inr vs)
      have lt: "length texts - nat (i + bs) < length texts - nat i"
        using True bs less.prems by linarith
      have "0 \<le> i + bs" using bs less.prems by simp
      from less.hyps[OF lt this, of "out @ vs" w1]
      obtain r where "embed_loop p bs mr bo texts (i + bs) (out @ vs) w1 = Some r" by blast
      with rb Inr True show ?thesis by (subst embed_loop.simps) simp
    qed
  qed
qed

lemma embed_texts_returns:
  "0 < bs \<Longrightarrow> \<exists>r. embed_texts_openai p texts bs mr bo w = Some r"
  using embed_loop_returns[of bs 0 p mr bo texts "[]"]
  by (auto simp: embed_texts_openai_def Let_def split: option.splits)

lemma run_search_query_ok:
  assumes "run_search_query table project_id qvec k path_prefix = Inr rows"
  shows "int (length rows) \<le> k \<and> sorted (map cr_score rows)"
proof -
  let ?sel = "filter (\<lambda>r. row_project_id r = project_id \<and>
                        (case path_prefix of
                           None \<Rightarrow> True
                         | Some pre \<Rightarrow> pre = [] \<or> sql_like (pre @ ''%'') (row_path r))) table"
  let ?d = "\<lambda>r. l2_distance (row_embedding r) qvec"
  from assms have k: "0 \<le> k"
    and rows: "rows = map (\<lambda>r. \<lparr>cr_id = row_id r, cr_path = row_path r,
                               cr_start_line = row_start_line r, cr_end_line = row_end_line r,
                               cr_content = row_content r, cr_score = ?d r\<rparr>)
                       (take (nat k) (sort_key ?d ?sel))"
    by (auto simp: run_search_query_def Let_def split: if_splits)
  have "length rows \<le> nat k" unfolding rows by simp
  with k have 1: "int (length rows) \<le> k" by linarith
  have "map cr_score rows = take (nat k) (map ?d (sort_key ?d ?sel))"
    unfolding rows by (simp add: take_map comp_def)
  moreover have "sorted (map ?d (sort_key ?d ?sel))" by (rule sorted_sort_key)
  ultimately have "sorted (map cr_score rows)" by (simp add: sorted_wrt_take)
  with 1 show ?thesis by simp
qed


text \<open>
  Claim C7.  For \<open>k\<close> in \<open>[1, 50]\<close> the search returns, and a returned list has at most
  \<open>k\<close> rows whose distance scores are non-decreasing.  Through the endpoint, which
  caps the requested \<open>top_k\<close> at 50, a returned list has at most \<open>min(top_k, 50)\<close> rows,
  again in non-decreasing order of distance.
\<close>

theorem search_at_most_k_nearest_first:
  assumes "1 \<le> k" and "k \<le> 50"
  shows "(\<exists>r w'. vector_search_project env p db project_id query k path_prefix w = Some (r, w') \<and>
            (\<forall>rows. r = Inr rows \<longrightarrow> int (length rows) \<le> k \<and> sorted (map cr_score rows))) \<and>
         (\<forall>results w'.
            search_project_code env p db current_user project_id query top_k w = Some (Inr results, w')
            \<longrightarrow> int (length results) \<le> min top_k 50 \<and> sorted (map cr_score results))"
proof
  obtain r0 w0 where e: "embed_texts_openai p [query] 1 3 (3 / 2) w = Some (r0, w0)"
    using embed_texts_returns[of 1 p "[query]" 3 "3 / 2" w] by auto
  show "\<exists>r w'. vector_search_project env p db project_id query k path_prefix w = Some (r, w') \<and>
            (\<forall>rows. r = Inr rows \<longrightarrow> int (length rows) \<le> k \<and> sorted (map cr_score rows))"
    using e run_search_query_ok[of "chunk_table (pending db)" project_id _ k path_prefix]
    by (auto simp: vector_search_project_def Let_def split: sum.splits list.splits option.splits)
next
  show "\<forall>results w'.
            search_project_code env p db current_user project_id query top_k w = Some (Inr results, w')
            \<longrightarrow> int (length results) \<le> min top_k 50 \<and> sorted (map cr_score results)"
  proof (intro allI impI)
    fix results w'
    assume a: "search_project_code env p db current_user project_id query top_k w = Some (Inr results, w')"
    then have "vector_search_project env p db project_id query (min top_k 50) None w = Some (Inr results, w')"
      by (auto simp: search_project_code_def split: option.splits if_splits sum.splits prod.splits)
    then obtain qvec where "run_search_query (chunk_table (pending db)) project_id qvec (min top_k 50) None = Inr results"
      by (auto simp: vector_search_project_def Let_def split: sum.splits list.splits option.splits prod.splits)
    from run_search_query_ok[OF this]
    show "int (length results) \<le> min top_k 50 \<and> sorted (map cr_score results)" .
  qed
qed

definition example_table :: "chunk_rec list" where
  "example_table =
     [\<lparr>row_id = 10, row_project_id = 1, row_path = ''a.py'', row_chunk_index = 0,
        row_start_line = Some 1, row_end_line = Some 2, row_content = [97],
        row_content_sha256 = None, row_embedding = [0]\<rparr>,
      \<lparr>row_id = 11, row_project_id = 1, row_path = ''a.py'', row_chunk_index = 1,
        row_start_line = Some 3, row_end_line = Some 4, row_content = [98],
        row_content_sha256 = None, row_embedding = [3]\<rparr>,
      \<lparr>row_id = 12, row_project_id = 1, row_path = ''b.py'', row_chunk_index = 0,
        row_start_line = Some 1, row_end_line = Some 1, row_content = [99],
        row_content_sha256 = None, row_embedding = [1]\<rparr>,
      \<lparr>row_id = 13, row_project_id = 2, row_path = ''c.py'', row_chunk_index = 0,
        row_start_line = Some 1, row_end_line = Some 1, row_content = [100],
        row_content_sha256 = None, row_embedding = [0]\<rparr>]"

definition example_database :: database where
  "example_database =
     \<lparr>chunk_table = example_table, next_chunk_id = 14,
      project_table = (\<lambda>i. if i = 1 \<or> i = 2
                         then Some \<lparr>owner_id = 7, preprocessing_status = ''completed'',
                                    analysis_saved = True\<rparr>
                         else None),
      progress_table = []\<rparr>"

definition example_session :: session where
  "example_session = \<lparr>committed = example_database, pending = example_database\<rparr>"

lemma example_search:
  "vector_search_project
      \<lparr>env_dim = None, embedding_model = ''text-embedding-ada-002'', ensure_schema_error = (\<lambda>d. None)\<rparr>
      \<lparr>client_error = None, respond = \<lambda>n batch. Inr [(0, [0])]\<rparr>
      example_session 1 [113] 2 None \<lparr>clients_built = 0, provider_calls = 0, slept = []\<rparr>
   = Some (Inr [\<lparr>cr_id = 10, cr_path = ''a.py'', cr_start_line = Some 1, cr_end_line = Some 2,
                  cr_content = [97], cr_score = 0\<rparr>,
                \<lparr>cr_id = 12, cr_path = ''b.py'', cr_start_line = Some 1, cr_end_line = Some 1,
                  cr_content = [99], cr_score = 1\<rparr>],
           \<lparr>clients_built = 1, provider_calls = 1, slept = []\<rparr>)"
  by (simp add: vector_search_project_def embed_texts_openai_def embed_loop.simps
        retry_batch.simps py_slice_def py_clamp_def infer_embedding_dim_def
        run_search_query_def example_session_def example_database_def example_table_def
        l2_distance_def Let_def)


theorem search_at_most_k_nearest_first_witness:
  "(1::int) \<le> 2 \<and> (2::int) \<le> 50 \<and>
   (\<exists>rows w'. vector_search_project
      \<lparr>env_dim = None, embedding_model = ''text-embedding-ada-002'', ensure_schema_error = (\<lambda>d. None)\<rparr>
      \<lparr>client_error = None, respond = \<lambda>n batch. Inr [(0, [0])]\<rparr>
      example_session 1 [113] 2 None \<lparr>clients_built = 0, provider_calls = 0, slept = []\<rparr>
        = Some (Inr rows, w') \<and>
      map cr_id rows = [10, 12] \<and> int (length rows) \<le> 2 \<and> sorted (map cr_score rows))"
proof -
  let ?env = "\<lparr>env_dim = None, embedding_model = ''text-embedding-ada-002'',
               ensure_schema_error = (\<lambda>d. None)\<rparr>"
  let ?p = "\<lparr>client_error = None, respond = \<lambda>n batch. Inr [(0, [0::real])]\<rparr>"
  let ?w = "\<lparr>clients_built = 0, provider_calls = 0, slept = []\<rparr>"
  have c1: "(1::int) \<le> 2" and c2: "(2::int) \<le> 50" by simp_all
  from search_at_most_k_nearest_first[OF c1 c2, where env = ?env and p = ?p and db = example_session
      and project_id = 1 and query = "[113]" and path_prefix = None and w = ?w]
  obtain r w' where run: "vector_search_project ?env ?p example_session 1 [113] 2 None ?w = Some (r, w')"
    and ok: "\<forall>rows. r = Inr rows \<longrightarrow> int (length rows) \<le> 2 \<and> sorted (map cr_score rows)"
    by blast
  from run obtain rows where r: "r = Inr rows" and ids: "map cr_id rows = [10, 12]"
    unfolding example_search by auto
  from ok r have "int (length rows) \<le> 2 \<and> sorted (map cr_score rows)" by blast
  with run r ids have "vector_search_project ?env ?p example_session 1 [113] 2 None ?w = Some (Inr rows, w') \<and>
      map cr_id rows = [10, 12] \<and> int (length rows) \<le> 2 \<and> sorted (map cr_score rows)"
    by simp
  then show ?thesis by (intro conjI exI[of _ rows] exI[of _ w']) simp_all
qed


section \<open>Chunking engine (\<open>vector_store.split_text_to_code_chunks\<close>)\<close>

text \<open>\<open>str.isspace\<close> on one code point, and \<open>str.strip()\<close>.\<close>

definition py_isspace :: "nat \<Rightarrow> bool" where
  "py_isspace c \<longleftrightarrow>
     (9 \<le> c \<and> c \<le> 13) \<or> (28 \<le> c \<and> c \<le> 32) \<or> c = 133 \<or> c = 160 \<or> c = 5760 \<or>
     (8192 \<le> c \<and> c \<le> 8202) \<or> c = 8232 \<or> c = 8233 \<or> c = 8239 \<or> c = 8287 \<or> c = 12288"

definition strip :: "pystr \<Rightarrow> pystr" where
  "strip s = rev (dropWhile py_isspace (rev (dropWhile py_isspace s)))"

text \<open>
  \<open>_line_number_at\<close>: the count of newlines strictly before \<open>idx\<close>, plus 1, by
  \<open>bisect_left\<close> on the positions of the newlines of the content.
\<close>

definition line_number_at :: "int list \<Rightarrow> int \<Rightarrow> int" where
  "line_number_at newline_positions idx = int (bisect_left newline_positions idx) + 1"

definition newline_positions_of :: "pystr \<Rightarrow> int list" where
  "newline_positions_of content =
     map (\<lambda>i. int i) (filter (\<lambda>i. content ! i = 10) [0 ..< length content])"

text \<open>
  \<open>_get_separators_for_file\<close>; a separator is written by its code points: 10 is the
  newline, 32 the space, 35 \<open>#\<close>, 44 the comma, 46 the full stop, 59 the semicolon, and
  \<open>[]\<close> is the empty separator.
\<close>

definition get_separators_for_file :: "string \<Rightarrow> pystr list" where
  "get_separators_for_file file_ext =
     (if file_ext \<in> {''.md'', ''.markdown'', ''.rst'', ''.txt''} then
        [[10, 10], [10, 35, 32], [10, 35, 35, 32], [10, 35, 35, 35, 32], [10], [46, 32], [32], []]
      else if file_ext \<in> {''.json'', ''.yaml'', ''.yml'', ''.toml'', ''.xml'', ''.html'', ''.css''} then
        [[10, 10], [10], [44], [32], []]
      else if file_ext \<in> {''.csv'', ''.tsv'', ''.log''} then
        [[10], [44], [32], []]
      else [[10, 10], [10], [59, 32], [44, 32], [32], []])"

text \<open>\<open>text.split(sep)\<close> for the non-empty separator \<open>s # ss\<close>.\<close>

function split_scan :: "'a \<Rightarrow> 'a list \<Rightarrow> 'a list \<Rightarrow> 'a list \<Rightarrow> 'a list list" where
  "split_scan s ss txt acc =
     (if txt = [] then [rev acc]
      else if starts_with (s # ss) txt then rev acc # split_scan s ss (drop (Suc (length ss)) txt) []
      else split_scan s ss (tl txt) (hd txt # acc))"
  by pat_completeness auto
termination
  by (relation "measure (\<lambda>(s, ss, txt, acc). length txt)") auto

declare split_scan.simps [simp del]

definition py_split :: "'a \<Rightarrow> 'a list \<Rightarrow> 'a list \<Rightarrow> 'a list list" where
  "py_split s ss txt = split_scan s ss txt []"

text \<open>
  The spans of the pieces of \<open>text.split(sep)\<close>, each with its separator but the last;
  \<open>n\<close> is \<open>len(sep)\<close>.
\<close>

fun piece_spans :: "nat \<Rightarrow> 'a list list \<Rightarrow> nat \<Rightarrow> (nat \<times> nat) list" where
  "piece_spans n [] cursor = []"
| "piece_spans n [part] cursor = [(cursor, cursor + length part)]"
| "piece_spans n (part # rest) cursor =
     (cursor, cursor + length part + n) # piece_spans n rest (cursor + length part + n)"

text \<open>
  The character-level split with overlap, the branch \<open>sep == ""\<close> of
  \<open>split_recursive\<close>: the loop \<open>while i < len(text)\<close>.
\<close>

function char_split :: "int \<Rightarrow> int \<Rightarrow> pystr \<Rightarrow> int \<Rightarrow> nat \<Rightarrow> (int \<times> int) list" where
  "char_split chunk_size chunk_overlap txt start_offset i =
     (if i < length txt then
        (let step = max 1 (chunk_size - max 0 chunk_overlap);
             end = min (int (length txt)) (int i + chunk_size);
             here = (if strip (py_slice txt (int i) end) \<noteq> []
                     then [(start_offset + int i, start_offset + end)] else [])
         in if end \<ge> int (length txt) then here
            else here @ char_split chunk_size chunk_overlap txt start_offset (i + nat step))
      else [])"
  by pat_completeness auto
termination
  by (relation "measure (\<lambda>(cs, ov, txt, off, i). length txt - i)") auto

declare char_split.simps [simp del]

text \<open>
  \<open>_fallback_recursive_split_spans\<close>.  \<open>split_recursive\<close> is the inner function of the
  source, \<open>for_seps\<close> its loop \<open>for sep in seps\<close> from the separator reached, and
  \<open>merge_pieces\<close> the loop over the pieces with its state \<open>cur_start\<close>, \<open>cur_end\<close>; each
  returns the spans it appends, in order.  When the loop reaches a separator that occurs
  in the text, every separator before it is non-empty and does not occur in the text, so
  it differs from all of them, \<open>seps.index(sep)\<close> is its position, and
  \<open>seps[seps.index(sep) + 1:]\<close> is the rest of the list after it.  When no separator
  applies the source calls itself with \<open>[""]\<close>: the text is longer than \<open>chunk_size\<close>
  there, so that call goes straight to the character split.
\<close>

function (sequential) split_recursive :: "int \<Rightarrow> int \<Rightarrow> pystr \<Rightarrow> int \<Rightarrow> pystr list \<Rightarrow> (int \<times> int) list"
  and for_seps :: "int \<Rightarrow> int \<Rightarrow> pystr \<Rightarrow> int \<Rightarrow> pystr list \<Rightarrow> (int \<times> int) list"
  and merge_pieces ::
    "int \<Rightarrow> int \<Rightarrow> pystr \<Rightarrow> int \<Rightarrow> pystr list \<Rightarrow> (nat \<times> nat) list \<Rightarrow> int \<Rightarrow> int
       \<Rightarrow> (int \<times> int) list"
where
  "split_recursive chunk_size chunk_overlap txt start_offset seps =
     (if int (length txt) \<le> chunk_size then
        (if strip txt \<noteq> [] then [(start_offset, start_offset + int (length txt))] else [])
      else for_seps chunk_size chunk_overlap txt start_offset seps)"
| "for_seps chunk_size chunk_overlap txt start_offset [] =
     char_split chunk_size chunk_overlap txt start_offset 0"
| "for_seps chunk_size chunk_overlap txt start_offset ([] # rest) =
     char_split chunk_size chunk_overlap txt start_offset 0"
| "for_seps chunk_size chunk_overlap txt start_offset ((s # ss) # rest) =
     (if py_in (s # ss) txt then
        merge_pieces chunk_size chunk_overlap txt start_offset rest
          (piece_spans (Suc (length ss)) (py_split s ss txt) 0) 0 0
      else for_seps chunk_size chunk_overlap txt start_offset rest)"
| "merge_pieces chunk_size chunk_overlap txt start_offset seps [] cur_start cur_end =
     (if cur_end > cur_start \<and> strip (py_slice txt cur_start cur_end) \<noteq> []
      then [(start_offset + cur_start, start_offset + cur_end)] else [])"
| "merge_pieces chunk_size chunk_overlap txt start_offset seps ((p_start, p_end) # ps)
       cur_start cur_end =
     (if int p_end - cur_start \<le> chunk_size then
        merge_pieces chunk_size chunk_overlap txt start_offset seps ps cur_start (int p_end)
      else
        (if cur_end > cur_start \<and> strip (py_slice txt cur_start cur_end) \<noteq> []
         then [(start_offset + cur_start, start_offset + cur_end)] else []) @
        (if int p_end - (if chunk_overlap > 0 then max cur_start (cur_end - chunk_overlap)
                         else cur_end) \<le> chunk_size
         then merge_pieces chunk_size chunk_overlap txt start_offset seps ps
                (if chunk_overlap > 0 then max cur_start (cur_end - chunk_overlap) else cur_end)
                (int p_end)
         else split_recursive chunk_size chunk_overlap (py_slice txt (int p_start) (int p_end))
                (start_offset + int p_start) seps @
              merge_pieces chunk_size chunk_overlap txt start_offset seps ps
                (int p_end) (int p_end)))"

  by pat_completeness auto

termination
  by (relation "measures
        [\<lambda>x. case x of
                Inl (cs, ov, txt, off, seps) \<Rightarrow> length seps
              | Inr (Inl (cs, ov, txt, off, seps)) \<Rightarrow> length seps
              | Inr (Inr (cs, ov, txt, off, seps, ps, a, b)) \<Rightarrow> length seps,
         \<lambda>x. case x of
                Inl (cs, ov, txt, off, seps) \<Rightarrow> 1
              | Inr (Inl (cs, ov, txt, off, seps)) \<Rightarrow> 0
              | Inr (Inr (cs, ov, txt, off, seps, ps, a, b)) \<Rightarrow> 2,
         \<lambda>x. case x of
                Inl (cs, ov, txt, off, seps) \<Rightarrow> 0
              | Inr (Inl (cs, ov, txt, off, seps)) \<Rightarrow> 0
              | Inr (Inr (cs, ov, txt, off, seps, ps, a, b)) \<Rightarrow> length ps]")
     auto


declare split_recursive.simps [simp del] for_seps.simps [simp del] merge_pieces.simps [simp del]

definition fallback_recursive_split_spans ::
  "pystr \<Rightarrow> pystr list \<Rightarrow> int \<Rightarrow> int \<Rightarrow> (int \<times> int) list" where
  "fallback_recursive_split_spans content separators chunk_size chunk_overlap =
     split_recursive chunk_size chunk_overlap content 0 separators"

definition ordered_spans :: "(int \<times> int) list \<Rightarrow> bool" where
  "ordered_spans spans \<longleftrightarrow> list_all (\<lambda>(s, e). s \<le> e) spans"

lemma ordered_spans_append [simp]:
  "ordered_spans (xs @ ys) \<longleftrightarrow> ordered_spans xs \<and> ordered_spans ys"
  by (simp add: ordered_spans_def)

lemma ordered_spans_Nil [simp]: "ordered_spans []"
  by (simp add: ordered_spans_def)

lemma ordered_spans_single [simp]: "ordered_spans [(s, e)] \<longleftrightarrow> s \<le> e"
  by (simp add: ordered_spans_def)

lemma char_split_ordered:
  "0 \<le> chunk_size \<Longrightarrow> ordered_spans (char_split chunk_size chunk_overlap txt start_offset i)"
proof (induction chunk_size chunk_overlap "txt" start_offset i rule: char_split.induct)
  case (1 chunk_size chunk_overlap t start_offset i)
  show ?case
  proof (cases "i < length t")
    case False
    then show ?thesis by (subst char_split.simps) simp
  next
    case True
    define e where "e = min (int (length t)) (int i + chunk_size)"
    have ie: "int i \<le> e" using True "1.prems" by (simp add: e_def)
    show ?thesis
    proof (cases "e \<ge> int (length t)")
      case True
      with \<open>i < length t\<close> ie show ?thesis
        by (subst char_split.simps) (simp add: Let_def e_def[symmetric])
    next
      case False
      from "1.IH"[OF \<open>i < length t\<close> refl e_def refl _ "1.prems"] False
      have "ordered_spans (char_split chunk_size chunk_overlap t start_offset
               (i + nat (max 1 (chunk_size - max 0 chunk_overlap))))" by simp
      with \<open>i < length t\<close> ie False show ?thesis
        by (subst char_split.simps) (simp add: Let_def e_def[symmetric])
    qed
  qed
qed

lemma split_recursive_ordered:
  "0 \<le> chunk_size \<Longrightarrow> ordered_spans (split_recursive chunk_size chunk_overlap txt start_offset seps)"
  "0 \<le> chunk_size \<Longrightarrow> ordered_spans (for_seps chunk_size chunk_overlap txt start_offset seps)"
  "0 \<le> chunk_size \<Longrightarrow>
     ordered_spans (merge_pieces chunk_size chunk_overlap txt start_offset seps ps cur_start cur_end)"
proof (induction chunk_size chunk_overlap "txt" start_offset seps
         and chunk_size chunk_overlap "txt" start_offset seps
         and chunk_size chunk_overlap "txt" start_offset seps ps cur_start cur_end
       rule: split_recursive_for_seps_merge_pieces.induct)
  case (1 chunk_size chunk_overlap t start_offset seps)
  then show ?case by (subst split_recursive.simps) simp
next
  case (2 chunk_size chunk_overlap t start_offset)
  then show ?case by (subst for_seps.simps) (simp add: char_split_ordered)
next
  case (3 chunk_size chunk_overlap t start_offset rest)
  then show ?case by (subst for_seps.simps) (simp add: char_split_ordered)
next
  case (4 chunk_size chunk_overlap t start_offset s ss rest)
  then show ?case by (subst for_seps.simps) simp
next
  case (5 chunk_size chunk_overlap t start_offset seps cur_start cur_end)
  then show ?case by (subst merge_pieces.simps) simp
next
  case (6 chunk_size chunk_overlap t start_offset seps p_start p_end ps cur_start cur_end)
  then show ?case by (subst merge_pieces.simps) simp
qed



text \<open>\<open>content.find(sub, start)\<close> for \<open>start \<ge> 0\<close>: the lowest index from \<open>start\<close> on at which
  \<open>sub\<close> occurs, or -1.\<close>

definition py_find :: "'a list \<Rightarrow> 'a list \<Rightarrow> nat \<Rightarrow> int" where
  "py_find txt sub start =
     (case List.find (\<lambda>i. starts_with sub (drop i txt)) [start ..< Suc (length txt)] of
        None \<Rightarrow> - 1
      | Some i \<Rightarrow> int i)"

fun infer_spans :: "pystr \<Rightarrow> int \<Rightarrow> pystr list \<Rightarrow> nat \<Rightarrow> (int \<times> int) list" where
  "infer_spans content chunk_overlap [] cursor = []"
| "infer_spans content chunk_overlap (part # rest) cursor =
     (let pos0 = py_find content part cursor;
          pos = (if pos0 < 0 then py_find content part 0 else pos0)
      in if pos < 0 then infer_spans content chunk_overlap rest cursor
         else (pos, pos + int (length part)) #
              infer_spans content chunk_overlap rest
                (nat (max (pos + int (length part) - max 0 chunk_overlap) 0)))"

text \<open>
  LangChain's splitter is outside the program.  What the \<open>try\<close> block around it can do:
  \<open>create_documents\<close> returns documents, each with its \<open>start_index\<close> and
  \<open>page_content\<close>; or a \<open>TypeError\<close> is raised (after some documents were turned into
  spans, normally none), and the handler's \<open>split_text\<close> returns parts or raises in its
  turn; or another exception is raised and the spans are reset.
\<close>

datatype langchain_outcome =
    Documents "(int \<times> pystr) list"
  | RaisesTypeError "(int \<times> pystr) list" "error + pystr list"
  | RaisesOther

text \<open>
  The surroundings of the chunking engine: \<open>os.path.splitext(path)[1].lower()\<close>, the
  Tree-sitter parsers by language when Tree-sitter is installed (a parser answers a
  content with a tree, or raises: \<open>None\<close>), LangChain's splitter when installed, and
  SHA-256 as a hex digest.
\<close>

record chunk_env =
  file_ext_of :: "string \<Rightarrow> string"
  tree_sitter :: "(string \<Rightarrow> (pystr \<Rightarrow> node option) option) option"
  langchain :: "(int \<Rightarrow> int \<Rightarrow> pystr list \<Rightarrow> pystr \<Rightarrow> langchain_outcome) option"
  sha256_text :: "pystr \<Rightarrow> string"

definition tree_sitter_language_for_ext :: "string \<Rightarrow> string option" where
  "tree_sitter_language_for_ext file_ext =
     (if file_ext \<in> {''.py'', ''.pyw''} then Some ''python''
      else if file_ext \<in> {''.js'', ''.jsx''} then Some ''javascript''
      else if file_ext = ''.ts'' then Some ''typescript''
      else if file_ext = ''.tsx'' then Some ''tsx''
      else if file_ext = ''.java'' then Some ''java''
      else if file_ext = ''.go'' then Some ''go''
      else if file_ext = ''.rs'' then Some ''rust''
      else if file_ext \<in> {''.cpp'', ''.cc'', ''.cxx'', ''.c'', ''.h'', ''.hpp''} then Some ''cpp''
      else if file_ext = ''.cs'' then Some ''c_sharp''
      else None)"

definition get_tree_sitter_parser :: "chunk_env \<Rightarrow> string \<Rightarrow> (pystr \<Rightarrow> node option) option" where
  "get_tree_sitter_parser env file_ext =
     (case tree_sitter env of
        None \<Rightarrow> None
      | Some parser_for \<Rightarrow>
          (case tree_sitter_language_for_ext file_ext of
             None \<Rightarrow> None
           | Some lang \<Rightarrow> parser_for lang))"

text \<open>
  A chunk dict, and the body of the two loops that build them: an empty
  \<open>content[s:e].strip()\<close> is skipped.
\<close>

record chunk =
  ck_path :: string
  ck_chunk_index :: nat
  ck_start_line :: int
  ck_end_line :: int
  ck_content :: pystr
  ck_content_sha256 :: string
  ck_chunk_type :: string
  ck_splitter :: string

definition make_chunk ::
  "chunk_env \<Rightarrow> string \<Rightarrow> pystr \<Rightarrow> int list \<Rightarrow> string \<Rightarrow> string \<Rightarrow> nat \<Rightarrow> int \<Rightarrow> int
     \<Rightarrow> chunk list" where
  "make_chunk env path content newline_positions chunk_type splitter idx s e =
     (let chunk_text = strip (py_slice content s e)
      in if chunk_text = [] then []
         else [\<lparr>ck_path = path, ck_chunk_index = idx,
                 ck_start_line = (if newline_positions \<noteq> [] then line_number_at newline_positions s else 1),
                 ck_end_line = (if newline_positions \<noteq> [] then line_number_at newline_positions e else 1),
                 ck_content = chunk_text, ck_content_sha256 = sha256_text env chunk_text,
                 ck_chunk_type = chunk_type, ck_splitter = splitter\<rparr>])"

definition tier1_chunks :: "chunk_env \<Rightarrow> string \<Rightarrow> pystr \<Rightarrow> int list \<Rightarrow> span list \<Rightarrow> chunk list" where
  "tier1_chunks env path content newline_positions spans =
     concat (map (\<lambda>(idx, (s, e, node_type)).
                    make_chunk env path content newline_positions (''tree_sitter:'' @ node_type)
                      ''tree_sitter'' idx (int s) (int e))
                 (enumerate 0 spans))"

definition langchain_spans ::
  "chunk_env \<Rightarrow> pystr \<Rightarrow> pystr list \<Rightarrow> int \<Rightarrow> int \<Rightarrow> error + (int \<times> int) list" where
  "langchain_spans env content separators chunk_chars chunk_overlap =
     (case langchain env of
        None \<Rightarrow> Inr []
      | Some splitter \<Rightarrow>
          (case splitter chunk_chars chunk_overlap separators content of
             Documents docs \<Rightarrow> Inr (map (\<lambda>(start, page). (start, start + int (length page))) docs)
           | RaisesTypeError docs second \<Rightarrow>
               (case second of
                  Inl e \<Rightarrow> Inl e
                | Inr parts \<Rightarrow>
                    Inr (map (\<lambda>(start, page). (start, start + int (length page))) docs @
                         infer_spans content chunk_overlap parts 0))
           | RaisesOther \<Rightarrow> Inr []))"

definition tier2_chunks ::
  "chunk_env \<Rightarrow> string \<Rightarrow> pystr \<Rightarrow> int list \<Rightarrow> string \<Rightarrow> int \<Rightarrow> int \<Rightarrow> error + chunk list" where
  "tier2_chunks env path content newline_positions file_ext chunk_chars chunk_overlap =
     (let separators = get_separators_for_file file_ext
      in case langchain_spans env content separators chunk_chars chunk_overlap of
           Inl e \<Rightarrow> Inl e
         | Inr spans \<Rightarrow>
             (let spans2 = (if spans = []
                            then fallback_recursive_split_spans content separators chunk_chars
                                   chunk_overlap
                            else spans)
              in Inr (concat (map (\<lambda>(idx, (s, e)).
                                     make_chunk env path content newline_positions ''recursive''
                                       ''recursive'' idx s e)
                                  (enumerate 0 spans2)))))"

text \<open>
  \<open>split_text_to_code_chunks\<close>: the syntax-aware tier when it yields chunks, the
  universal tier otherwise.
\<close>

definition split_text_to_code_chunks ::
  "chunk_env \<Rightarrow> string \<Rightarrow> pystr \<Rightarrow> int \<Rightarrow> int \<Rightarrow> error + chunk list" where
  "split_text_to_code_chunks env path content chunk_chars chunk_overlap =
     (let file_ext = file_ext_of env path;
          newline_positions = newline_positions_of content;
          parser = get_tree_sitter_parser env file_ext
      in case (if parser = None then Inr []
               else extract_tree_sitter_chunks content parser file_ext chunk_chars) of
           Inl e \<Rightarrow> Inl e
         | Inr spans \<Rightarrow>
             (let out = tier1_chunks env path content newline_positions spans
              in if out \<noteq> [] then Inr out
                 else tier2_chunks env path content newline_positions file_ext chunk_chars
                        chunk_overlap))"


lemma strip_prefix: "\<exists>t. dropWhile py_isspace s = strip s @ t"
proof -
  let ?a = "dropWhile py_isspace s"
  have "rev (takeWhile py_isspace (rev ?a) @ dropWhile py_isspace (rev ?a)) = rev (rev ?a)"
    by (simp only: takeWhile_dropWhile_id)
  then have "rev (dropWhile py_isspace (rev ?a)) @ rev (takeWhile py_isspace (rev ?a)) = ?a"
    by (simp only: rev_append rev_rev_ident)
  then have "?a = strip s @ rev (takeWhile py_isspace (rev ?a))"
    by (simp only: strip_def)
  then show ?thesis by (rule exI)
qed

lemma strip_hd: "strip s \<noteq> [] \<Longrightarrow> \<not> py_isspace (hd (strip s))"
proof -
  assume ne: "strip s \<noteq> []"
  obtain t where t: "dropWhile py_isspace s = strip s @ t" using strip_prefix by blast
  with ne have "dropWhile py_isspace s \<noteq> []" by simp
  then have "\<not> py_isspace (hd (dropWhile py_isspace s))" by (rule hd_dropWhile)
  with t ne show ?thesis by simp
qed

lemma dropWhile_strip: "dropWhile py_isspace (strip s) = strip s"
proof (cases "strip s")
  case Nil
  then show ?thesis by simp
next
  case (Cons x xs)
  with strip_hd[of s] have "\<not> py_isspace x" by simp
  with Cons show ?thesis by simp
qed

lemma strip_idem: "strip (strip s) = strip s"
proof -
  have "strip (strip s) = rev (dropWhile py_isspace (rev (strip s)))"
    by (simp add: strip_def[of "strip s"] dropWhile_strip)
  also have "\<dots> = rev (dropWhile py_isspace (dropWhile py_isspace (rev (dropWhile py_isspace s))))"
    by (simp add: strip_def)
  also have "\<dots> = strip s" by (simp add: strip_def dropWhile_idem)
  finally show ?thesis .
qed

lemma strip_Nil [simp]: "strip [] = []"
  by (simp add: strip_def)

lemma newline_positions_sorted: "sorted (newline_positions_of content)"
proof -
  have "sorted (filter (\<lambda>i. content ! i = 10) [0 ..< length content])"
    by (rule sorted_wrt_filter) simp
  then show ?thesis
    unfolding newline_positions_of_def by (simp add: sorted_wrt_map sorted_wrt_iff_nth_less)
qed

lemma line_number_at_mono:
  "sorted nl \<Longrightarrow> s \<le> e \<Longrightarrow> line_number_at nl s \<le> line_number_at nl e"
  using bisect_left_mono[of nl s e] by (simp add: line_number_at_def)

lemma line_number_at_pos: "1 \<le> line_number_at nl s"
  by (simp add: line_number_at_def)

lemma py_slice_nonempty_nonneg:
  assumes "py_slice xs s e \<noteq> []" and "0 \<le> s" and "0 \<le> e"
  shows "s < e"
proof (rule ccontr)
  assume "\<not> s < e"
  then have "nat e \<le> nat s" by simp
  then have "py_clamp (length xs) e \<le> py_clamp (length xs) s"
    using assms(2,3) by (simp add: py_clamp_def min_def)
  with assms(1) show False by (simp add: py_slice_def Let_def)
qed

definition chunk_ok :: "chunk \<Rightarrow> bool" where
  "chunk_ok c \<longleftrightarrow>
     ck_content c \<noteq> [] \<and> strip (ck_content c) = ck_content c \<and>
     1 \<le> ck_start_line c \<and> ck_start_line c \<le> ck_end_line c"

lemma make_chunk_ok:
  assumes nl: "sorted nl" and se: "s \<le> e \<or> (0 \<le> s \<and> 0 \<le> e)"
    and c: "c \<in> set (make_chunk env path content nl chunk_type splitter idx s e)"
  shows "chunk_ok c"
proof -
  from c have ne: "strip (py_slice content s e) \<noteq> []"
    by (auto simp: make_chunk_def Let_def split: if_splits)
  then have "py_slice content s e \<noteq> []" by auto
  with se have le: "s \<le> e" using py_slice_nonempty_nonneg[of content s e] by auto
  from c ne have cc: "ck_content c = strip (py_slice content s e)"
    and sl: "ck_start_line c = (if nl \<noteq> [] then line_number_at nl s else 1)"
    and el: "ck_end_line c = (if nl \<noteq> [] then line_number_at nl e else 1)"
    by (auto simp: make_chunk_def Let_def)
  show ?thesis
    unfolding chunk_ok_def cc sl el
    using ne strip_idem line_number_at_mono[OF nl le] line_number_at_pos by auto
qed

lemma tier1_chunks_ok:
  assumes "sorted nl" and "c \<in> set (tier1_chunks env path content nl spans)"
  shows "chunk_ok c"
proof -
  from assms(2) obtain idx s e node_type where
    "c \<in> set (make_chunk env path content nl (''tree_sitter:'' @ node_type) ''tree_sitter'' idx (int s) (int e))"
    by (auto simp: tier1_chunks_def)
  then show ?thesis by (rule make_chunk_ok[OF assms(1), rotated]) simp
qed

lemma infer_spans_ordered: "ordered_spans (infer_spans content chunk_overlap parts cursor)"
  by (induction content chunk_overlap parts cursor rule: infer_spans.induct)
     (simp_all add: Let_def ordered_spans_def)

lemma documents_ordered:
  "ordered_spans (map (\<lambda>(start, page). (start, start + int (length page))) docs)"
  by (induction docs) (auto simp: ordered_spans_def)

lemma langchain_spans_ordered:
  assumes "langchain_spans env content separators chunk_chars chunk_overlap = Inr spans"
  shows "ordered_spans spans"
proof (cases "langchain env")
  case None
  with assms show ?thesis by (simp add: langchain_spans_def)
next
  case (Some splitter)
  show ?thesis
  proof (cases "splitter chunk_chars chunk_overlap separators content")
    case (Documents docs)
    with Some assms show ?thesis by (auto simp: langchain_spans_def documents_ordered)
  next
    case (RaisesTypeError docs second)
    with Some assms obtain parts where
      "spans = map (\<lambda>(start, page). (start, start + int (length page))) docs @
               infer_spans content chunk_overlap parts 0"
      by (auto simp: langchain_spans_def split: sum.splits)
    then show ?thesis by (simp add: documents_ordered infer_spans_ordered)
  next
    case RaisesOther
    with Some assms show ?thesis by (auto simp: langchain_spans_def)
  qed
qed

lemma tier2_chunks_ok:
  assumes nl: "sorted nl" and cs: "0 \<le> chunk_chars"
    and r: "tier2_chunks env path content nl file_ext chunk_chars chunk_overlap = Inr out"
    and c: "c \<in> set out"
  shows "chunk_ok c"
proof -
  let ?seps = "get_separators_for_file file_ext"
  from r obtain spans where ls: "langchain_spans env content ?seps chunk_chars chunk_overlap = Inr spans"
    by (auto simp: tier2_chunks_def Let_def split: sum.splits)
  define spans2 where "spans2 = (if spans = []
       then fallback_recursive_split_spans content ?seps chunk_chars chunk_overlap else spans)"
  have o: "ordered_spans spans2"
    unfolding spans2_def fallback_recursive_split_spans_def
    using langchain_spans_ordered[OF ls] split_recursive_ordered(1)[OF cs] by simp
  from r ls have "out = concat (map (\<lambda>(idx, (s, e)).
        make_chunk env path content nl ''recursive'' ''recursive'' idx s e) (enumerate 0 spans2))"
    by (simp add: tier2_chunks_def Let_def spans2_def)
  with c obtain x where x: "x \<in> set (enumerate 0 spans2)"
    and cx: "c \<in> set (case x of (idx, (s, e)) \<Rightarrow>
               make_chunk env path content nl ''recursive'' ''recursive'' idx s e)"
    by auto
  obtain idx s e where xe: "x = (idx, (s, e))" by (cases x) auto
  from x xe have "idx < length spans2 \<and> spans2 ! idx = (s, e)"
    by (simp add: in_set_enumerate_eq)
  then have m: "(s, e) \<in> set spans2" by (metis nth_mem)
  from cx xe have cm: "c \<in> set (make_chunk env path content nl ''recursive'' ''recursive'' idx s e)"
    by simp
  from o m have "s \<le> e" by (auto simp: ordered_spans_def list_all_iff)
  then show ?thesis using make_chunk_ok[OF nl _ cm] by simp
qed

text \<open>
  Claim C6.  With a chunk size that is not negative, every chunk the engine returns, on
  any path and content and whichever tier produced it, has a content that is non-empty
  and already trimmed (so never empty or whitespace-only), and 1-based line numbers with
  \<open>start_line \<le> end_line\<close>.
\<close>

theorem chunks_nonempty_and_line_ordered:
  assumes "0 \<le> chunk_chars"
    and "split_text_to_code_chunks env path content chunk_chars chunk_overlap = Inr out"
    and "c \<in> set out"
  shows "ck_content c \<noteq> [] \<and> strip (ck_content c) = ck_content c \<and>
         1 \<le> ck_start_line c \<and> ck_start_line c \<le> ck_end_line c"
proof -
  note nl = newline_positions_sorted[of content]
  let ?nl = "newline_positions_of content"
  let ?ext = "file_ext_of env path"
  from assms(2) obtain spans where
    alt: "out = tier1_chunks env path content ?nl spans \<or>
          tier2_chunks env path content ?nl ?ext chunk_chars chunk_overlap = Inr out"
    by (auto simp: split_text_to_code_chunks_def Let_def split: sum.splits if_splits)
  then have "chunk_ok c"
  proof
    assume "out = tier1_chunks env path content ?nl spans"
    with assms(3) show ?thesis using tier1_chunks_ok[OF nl] by simp
  next
    assume "tier2_chunks env path content ?nl ?ext chunk_chars chunk_overlap = Inr out"
    from tier2_chunks_ok[OF nl assms(1) this assms(3)] show ?thesis .
  qed
  then show ?thesis by (simp add: chunk_ok_def)
qed


lemma example_split_scan: "py_split (10::nat) [] [97, 98, 10, 99, 100] = [[97, 98], [99, 100]]"
  by (simp add: py_split_def split_scan.simps)

lemma example_fallback:
  "fallback_recursive_split_spans [97, 98, 10, 99, 100] (get_separators_for_file ''.txt'') 3 0
     = [(0, 3), (3, 5)]"
  by (simp add: fallback_recursive_split_spans_def get_separators_for_file_def
        split_recursive.simps for_seps.simps merge_pieces.simps example_split_scan
        strip_def py_isspace_def py_slice_def py_clamp_def)

lemma example_newlines: "newline_positions_of [97, 98, 10, 99, 100] = [2]"
  by (simp add: newline_positions_of_def upt_rec)

lemma example_lines:
  "line_number_at [2] 0 = 1" "line_number_at [2] 3 = 2" "line_number_at [2] 5 = 2"
  by (simp_all add: line_number_at_def bisect_left_def bisect_loop.simps)

definition example_chunk_env :: chunk_env where
  "example_chunk_env = \<lparr>file_ext_of = (\<lambda>p. ''.txt''), tree_sitter = None, langchain = None,
                         sha256_text = (\<lambda>t. ''sha'')\<rparr>"

lemma example_chunks:
  "split_text_to_code_chunks example_chunk_env ''notes.txt'' [97, 98, 10, 99, 100] 3 0 =
     Inr [\<lparr>ck_path = ''notes.txt'', ck_chunk_index = 0, ck_start_line = 1, ck_end_line = 2,
            ck_content = [97, 98], ck_content_sha256 = ''sha'', ck_chunk_type = ''recursive'',
            ck_splitter = ''recursive''\<rparr>,
          \<lparr>ck_path = ''notes.txt'', ck_chunk_index = 1, ck_start_line = 2, ck_end_line = 2,
            ck_content = [99, 100], ck_content_sha256 = ''sha'', ck_chunk_type = ''recursive'',
            ck_splitter = ''recursive''\<rparr>]"
  by (simp add: split_text_to_code_chunks_def example_chunk_env_def get_tree_sitter_parser_def
        tier1_chunks_def tier2_chunks_def langchain_spans_def example_fallback example_newlines
        example_lines make_chunk_def enumerate_eq_zip upt_rec
        strip_def py_isspace_def py_slice_def py_clamp_def)


theorem chunks_nonempty_and_line_ordered_witness:
  "(0::int) \<le> 3 \<and>
   split_text_to_code_chunks example_chunk_env ''notes.txt'' [97, 98, 10, 99, 100] 3 0 =
     Inr [\<lparr>ck_path = ''notes.txt'', ck_chunk_index = 0, ck_start_line = 1, ck_end_line = 2,
            ck_content = [97, 98], ck_content_sha256 = ''sha'', ck_chunk_type = ''recursive'',
            ck_splitter = ''recursive''\<rparr>,
          \<lparr>ck_path = ''notes.txt'', ck_chunk_index = 1, ck_start_line = 2, ck_end_line = 2,
            ck_content = [99, 100], ck_content_sha256 = ''sha'', ck_chunk_type = ''recursive'',
            ck_splitter = ''recursive''\<rparr>] \<and>
   strip [97, 98] = [97, 98] \<and> strip [99, 100] = [99, 100]"
proof -
  let ?c0 = "\<lparr>ck_path = ''notes.txt'', ck_chunk_index = 0, ck_start_line = 1, ck_end_line = 2,
            ck_content = [97, 98], ck_content_sha256 = ''sha'', ck_chunk_type = ''recursive'',
            ck_splitter = ''recursive''\<rparr>"
  let ?c1 = "\<lparr>ck_path = ''notes.txt'', ck_chunk_index = 1, ck_start_line = 2, ck_end_line = 2,
            ck_content = [99, 100], ck_content_sha256 = ''sha'', ck_chunk_type = ''recursive'',
            ck_splitter = ''recursive''\<rparr>"
  have h: "(0::int) \<le> 3" by simp
  have "?c0 \<in> set [?c0, ?c1]" by simp
  from chunks_nonempty_and_line_ordered[OF h example_chunks this]
  have a: "strip [97, 98] = [97, 98]" by simp
  have "?c1 \<in> set [?c0, ?c1]" by simp
  from chunks_nonempty_and_line_ordered[OF h example_chunks this]
  have b: "strip [99, 100] = [99, 100]" by simp
  from h example_chunks a b show ?thesis by (intro conjI)
qed


section \<open>Indexing a project (\<open>vector_store.index_project_chunks_to_pgvector\<close>) and the
  orchestrator (\<open>code_analyser.run_indexing_workflow\<close>)\<close>

text \<open>
  The session as the indexing code uses it, with the state of its transaction: a
  statement the database refuses leaves the transaction aborted (\<open>tx_failed\<close>), and an
  aborted transaction can only be rolled back.  The progress tracker writes one progress
  row and commits the session on every update; when that fails it rolls the session
  back, which is what happens in an aborted transaction.  Every other statement of the
  functions below is reached with a transaction that is not aborted whenever the run
  starts with one.
\<close>

record txn =
  session_of :: session
  tx_failed :: bool

definition tx_commit :: "txn \<Rightarrow> txn" where
  "tx_commit t =
     (if tx_failed t then \<lparr>session_of = rollback (session_of t), tx_failed = False\<rparr>
      else t\<lparr>session_of := commit (session_of t)\<rparr>)"

definition tx_update :: "(database \<Rightarrow> database) \<Rightarrow> txn \<Rightarrow> txn" where
  "tx_update f t = t\<lparr>session_of := (session_of t)\<lparr>pending := f (pending (session_of t))\<rparr>\<rparr>"

definition emit_progress :: "bool \<Rightarrow> int \<Rightarrow> string \<Rightarrow> txn \<Rightarrow> txn" where
  "emit_progress tracked project_id stage t =
     (if tracked
      then tx_commit (tx_update (\<lambda>d. d\<lparr>progress_table := progress_table d @ [(project_id, stage)]\<rparr>) t)
      else t)"

definition delete_project_chunks :: "txn \<Rightarrow> int \<Rightarrow> txn" where
  "delete_project_chunks t project_id =
     tx_update (\<lambda>d. d\<lparr>chunk_table := filter (\<lambda>r. row_project_id r \<noteq> project_id) (chunk_table d)\<rparr>) t"

text \<open>
  An entry of \<open>files\<close> (a missing key reads as the empty string), and the surroundings
  of an indexing run: the chunking engine's, the vector store's, the embedding provider,
  \<open>read_text\<close> of a file (\<open>None\<close> when it raises), and the exception the bulk insert
  raises for a list of rows, if any.
\<close>

record file_entry =
  fe_path :: string
  fe_absolute_path :: string

record index_env =
  ie_chunking :: chunk_env
  ie_store :: store_env
  ie_provider :: provider
  read_text :: "string \<Rightarrow> pystr option"
  insert_error :: "chunk_rec list \<Rightarrow> error option"

record index_result =
  files_indexed :: nat
  chunks_written :: nat
  embedding_dim :: "int option"

text \<open>The loop over the files of \<open>index_project_chunks_to_pgvector\<close>.\<close>

fun collect_chunks ::
  "index_env \<Rightarrow> bool \<Rightarrow> int \<Rightarrow> int \<Rightarrow> int \<Rightarrow> file_entry list \<Rightarrow> chunk list \<Rightarrow> nat \<Rightarrow> txn
     \<Rightarrow> (error + chunk list \<times> nat) \<times> txn" where
  "collect_chunks env tracked project_id chunk_chars chunk_overlap [] acc files_read t =
     (Inr (acc, files_read), t)"
| "collect_chunks env tracked project_id chunk_chars chunk_overlap (fm # rest) acc files_read t =
     (case read_text env (fe_absolute_path fm) of
        None \<Rightarrow> collect_chunks env tracked project_id chunk_chars chunk_overlap rest acc files_read t
      | Some content \<Rightarrow>
          if strip content = [] then
            collect_chunks env tracked project_id chunk_chars chunk_overlap rest acc files_read t
          else
            (case split_text_to_code_chunks (ie_chunking env) (fe_path fm) content chunk_chars
                    chunk_overlap of
               Inl e \<Rightarrow> (Inl e, t)
             | Inr cs \<Rightarrow>
                 collect_chunks env tracked project_id chunk_chars chunk_overlap rest (acc @ cs)
                   (files_read + 1) (emit_progress tracked project_id ''embedding'' t)))"

text \<open>
  The embedding dimension: the known one, or the length of the embedding of the text
  \<open>dimension probe\<close> (written by its code points).
\<close>

definition probe_dim :: "index_env \<Rightarrow> world \<Rightarrow> ((error + int) \<times> world) option" where
  "probe_dim env w =
     (let dim0 = infer_embedding_dim (ie_store env)
      in if dim0 \<le> 0 then
           (case embed_texts_openai (ie_provider env)
                   [[100, 105, 109, 101, 110, 115, 105, 111, 110, 32, 112, 114, 111, 98, 101]]
                   1 3 (3 / 2) w of
              None \<Rightarrow> None
            | Some (Inl e, w') \<Rightarrow> Some (Inl e, w')
            | Some (Inr vs, w') \<Rightarrow>
                (case vs of [] \<Rightarrow> Some (Inl IndexError, w') | v # _ \<Rightarrow> Some (Inr (int (length v)), w')))
         else Some (Inr dim0, w))"

text \<open>
  The rows of the bulk insert, with the ids the sequence gives them, and
  \<open>index_project_chunks_to_pgvector\<close>: chunk all files; with no chunk return at once;
  otherwise determine the dimension, ensure the schema, delete the project's rows,
  embed all chunks, insert the rows and commit.  The vector literal sent to the database
  keeps eight decimals of each component; the model stores the vector itself.
\<close>

definition make_rows :: "int \<Rightarrow> int \<Rightarrow> chunk list \<Rightarrow> vec list \<Rightarrow> chunk_rec list" where
  "make_rows first_id project_id cs vectors =
     map (\<lambda>(i, c, v).
            \<lparr>row_id = first_id + int i, row_project_id = project_id, row_path = ck_path c,
             row_chunk_index = int (ck_chunk_index c), row_start_line = Some (ck_start_line c),
             row_end_line = Some (ck_end_line c), row_content = ck_content c,
             row_content_sha256 = Some (ck_content_sha256 c), row_embedding = v\<rparr>)
         (enumerate 0 (zip cs vectors))"

definition insert_rows :: "chunk_rec list \<Rightarrow> txn \<Rightarrow> txn" where
  "insert_rows rows t =
     tx_update (\<lambda>d. d\<lparr>chunk_table := chunk_table d @ rows,
                       next_chunk_id := next_chunk_id d + int (length rows)\<rparr>) t"

definition index_project_chunks_to_pgvector ::
  "index_env \<Rightarrow> bool \<Rightarrow> int \<Rightarrow> file_entry list \<Rightarrow> int \<Rightarrow> int \<Rightarrow> int option \<Rightarrow> txn \<Rightarrow> world
     \<Rightarrow> ((error + index_result) \<times> txn \<times> world) option" where
  "index_project_chunks_to_pgvector env tracked project_id files chunk_chars chunk_overlap
       max_files t w =
     (let code_files0 = filter (\<lambda>f. fe_absolute_path f \<noteq> [] \<and> fe_path f \<noteq> []) files;
          code_files = (case max_files of None \<Rightarrow> code_files0
                        | Some m \<Rightarrow> py_slice code_files0 0 m);
          t1 = emit_progress tracked project_id ''embedding'' t
      in case collect_chunks env tracked project_id chunk_chars chunk_overlap code_files [] 0 t1 of
           (Inl e, t2) \<Rightarrow> Some (Inl e, t2, w)
         | (Inr (cs, files_read), t2) \<Rightarrow>
             if cs = [] then
               Some (Inr \<lparr>files_indexed = files_read, chunks_written = 0, embedding_dim = None\<rparr>,
                     t2, w)
             else
               (case probe_dim env w of
                  None \<Rightarrow> None
                | Some (Inl e, w1) \<Rightarrow> Some (Inl e, t2, w1)
                | Some (Inr dimension, w1) \<Rightarrow>
                    (case ensure_schema_error (ie_store env) dimension of
                       Some e \<Rightarrow> Some (Inl e, t2\<lparr>tx_failed := True\<rparr>, w1)
                     | None \<Rightarrow>
                         (let t3 = delete_project_chunks t2 project_id
                          in case embed_texts_openai (ie_provider env) (map ck_content cs)
                                    64 3 (3 / 2) w1 of
                               None \<Rightarrow> None
                             | Some (Inl e, w2) \<Rightarrow> Some (Inl e, t3, w2)
                             | Some (Inr vectors, w2) \<Rightarrow>
                                 if length vectors \<noteq> length cs then Some (Inl RuntimeError, t3, w2)
                                 else
                                   (let rows = make_rows (next_chunk_id (pending (session_of t3)))
                                                 project_id cs vectors
                                    in case insert_error env rows of
                                         Some e \<Rightarrow> Some (Inl e, t3\<lparr>tx_failed := True\<rparr>, w2)
                                       | None \<Rightarrow>
                                           Some (Inr \<lparr>files_indexed = files_read,
                                                       chunks_written = length rows,
                                                       embedding_dim = Some dimension\<rparr>,
                                                 tx_commit (insert_rows rows t3), w2))))))"








text \<open>
  Invariants of a run: a session whose transaction is open and has changed neither the
  chunk table nor the project table of the database \<open>d\<close>; and a session with nothing
  pending.
\<close>

definition clean :: "database \<Rightarrow> txn \<Rightarrow> bool" where
  "clean d t \<longleftrightarrow>
     \<not> tx_failed t \<and>
     chunk_table (pending (session_of t)) = chunk_table d \<and>
     project_table (pending (session_of t)) = project_table d \<and>
     chunk_table (committed (session_of t)) = chunk_table d \<and>
     project_table (committed (session_of t)) = project_table d"



lemma emit_progress_clean: "clean d t \<Longrightarrow> clean d (emit_progress tracked project_id stage t)"
  by (simp add: clean_def emit_progress_def tx_commit_def tx_update_def commit_def)

lemma collect_chunks_clean:
  "clean d t \<Longrightarrow>
   collect_chunks env tracked project_id chunk_chars chunk_overlap files acc files_read t = (r, t')
   \<Longrightarrow> clean d t'"
proof (induction env tracked project_id chunk_chars chunk_overlap files acc files_read t
       rule: collect_chunks.induct)
  case (1 env tracked project_id chunk_chars chunk_overlap acc files_read t)
  then show ?case by simp
next
  case (2 env tracked project_id chunk_chars chunk_overlap fm rest acc files_read t)
  show ?case
  proof (cases "read_text env (fe_absolute_path fm)")
    case None
    with 2 show ?thesis by simp
  next
    case (Some content)
    show ?thesis
    proof (cases "strip content = []")
      case True
      with Some 2 show ?thesis by simp
    next
      case False
      show ?thesis
      proof (cases "split_text_to_code_chunks (ie_chunking env) (fe_path fm) content chunk_chars chunk_overlap")
        case (Inl e)
        with Some False "2.prems" show ?thesis by simp
      next
        case (Inr cs)
        from "2.IH"(3)[OF Some False Inr emit_progress_clean[OF "2.prems"(1)]] "2.prems"(2) Some False Inr
        show ?thesis by simp
      qed
    qed
  qed
qed




text \<open>
  A project with three committed chunk rows from an earlier run, one file to index, an
  embedding provider that fails every call, and one that answers every call.
\<close>

definition prior_database :: database where
  "prior_database =
     \<lparr>chunk_table = example_table, next_chunk_id = 14,
      project_table = (\<lambda>i. if i = 1
                         then Some \<lparr>owner_id = 7, preprocessing_status = ''pending'',
                                    analysis_saved = False\<rparr>
                         else None),
      progress_table = []\<rparr>"

definition prior_txn :: txn where
  "prior_txn = \<lparr>session_of = \<lparr>committed = prior_database, pending = prior_database\<rparr>,
                 tx_failed = False\<rparr>"

definition failing_env :: index_env where
  "failing_env =
     \<lparr>ie_chunking = example_chunk_env,
      ie_store = \<lparr>env_dim = None, embedding_model = ''text-embedding-ada-002'',
                  ensure_schema_error = (\<lambda>d. None)\<rparr>,
      ie_provider = \<lparr>client_error = None, respond = \<lambda>n batch. Inl (ProviderError n)\<rparr>,
      read_text = (\<lambda>p. Some [97, 98, 10, 99, 100]),
      insert_error = (\<lambda>rows. None)\<rparr>"

definition example_files :: "file_entry list" where
  "example_files = [\<lparr>fe_path = ''notes.txt'', fe_absolute_path = ''/repo/notes.txt''\<rparr>]"

definition world0 :: world where
  "world0 = \<lparr>clients_built = 0, provider_calls = 0, slept = []\<rparr>"

lemma example_chunks_default:
  "split_text_to_code_chunks example_chunk_env ''notes.txt'' [97, 98, 10, 99, 100] 1200 150 =
     Inr [\<lparr>ck_path = ''notes.txt'', ck_chunk_index = 0, ck_start_line = 1, ck_end_line = 2,
            ck_content = [97, 98, 10, 99, 100], ck_content_sha256 = ''sha'',
            ck_chunk_type = ''recursive'', ck_splitter = ''recursive''\<rparr>]"
  by (simp add: split_text_to_code_chunks_def example_chunk_env_def get_tree_sitter_parser_def
        tier1_chunks_def tier2_chunks_def langchain_spans_def fallback_recursive_split_spans_def
        split_recursive.simps example_newlines
        example_lines make_chunk_def enumerate_eq_zip upt_rec
        strip_def py_isspace_def py_slice_def py_clamp_def)

lemma example_embed_fails:
  "embed_texts_openai \<lparr>client_error = None, respond = \<lambda>n batch. Inl (ProviderError n)\<rparr>
     [[97, 98, 10, 99, 100]] 64 3 (3 / 2) world0 =
   Some (Inl (ProviderError 3),
         \<lparr>clients_built = 1, provider_calls = 4, slept = [8 / 5, 16 / 5, 63 / 10]\<rparr>)"
  by (simp add: embed_texts_openai_def embed_loop.simps retry_batch.simps sleep_s_def world0_def
        py_slice_def py_clamp_def)











text \<open>
  A reindex that succeeds with at least one chunk replaces the project's rows: the
  committed chunk table is the other projects' rows followed by the new rows.
\<close>

lemma make_rows_project: "r \<in> set (make_rows first_id project_id cs vectors) \<Longrightarrow> row_project_id r = project_id"
  by (auto simp: make_rows_def)

lemma make_rows_length:
  "length vectors = length cs \<Longrightarrow> length (make_rows first_id project_id cs vectors) = length cs"
  by (simp add: make_rows_def enumerate_eq_zip)

lemma index_success_replaces:
  assumes c: "clean d t"
    and r: "index_project_chunks_to_pgvector env tracked project_id files chunk_chars
              chunk_overlap max_files t w = Some (Inr res, t', w')"
    and n: "0 < chunks_written res"
  shows "\<exists>rows. chunk_table (committed (session_of t')) =
                  filter (\<lambda>r. row_project_id r \<noteq> project_id) (chunk_table d) @ rows \<and>
                (\<forall>r \<in> set rows. row_project_id r = project_id) \<and>
                length rows = chunks_written res"
proof -
  let ?files = "case max_files of
                  None \<Rightarrow> filter (\<lambda>f. fe_absolute_path f \<noteq> [] \<and> fe_path f \<noteq> []) files
                | Some m \<Rightarrow> py_slice (filter (\<lambda>f. fe_absolute_path f \<noteq> [] \<and> fe_path f \<noteq> []) files) 0 m"
  let ?t1 = "emit_progress tracked project_id ''embedding'' t"
  obtain r2 t2 where cc: "collect_chunks env tracked project_id chunk_chars chunk_overlap ?files [] 0 ?t1
      = (r2, t2)" by fastforce
  have c2: "clean d t2" using collect_chunks_clean[OF emit_progress_clean[OF c] cc] .
  let ?t3 = "delete_project_chunks t2 project_id"
  from r cc n obtain cs vectors where
    t': "t' = tx_commit (insert_rows (make_rows (next_chunk_id (pending (session_of ?t3))) project_id cs vectors) ?t3)"
    and w: "chunks_written res = length (make_rows (next_chunk_id (pending (session_of ?t3))) project_id cs vectors)"
    by (auto simp: index_project_chunks_to_pgvector_def Let_def
        split: sum.splits prod.splits option.splits if_splits)
  let ?rows = "make_rows (next_chunk_id (pending (session_of ?t3))) project_id cs vectors"
  have "chunk_table (committed (session_of t')) =
          filter (\<lambda>r. row_project_id r \<noteq> project_id) (chunk_table d) @ ?rows"
    unfolding t' using c2
    by (simp add: clean_def tx_commit_def insert_rows_def tx_update_def commit_def
          delete_project_chunks_def)
  moreover have "\<forall>r \<in> set ?rows. row_project_id r = project_id"
    using make_rows_project by blast
  ultimately show ?thesis using w by auto
qed

definition good_env :: index_env where
  "good_env =
     \<lparr>ie_chunking = example_chunk_env,
      ie_store = \<lparr>env_dim = None, embedding_model = ''text-embedding-ada-002'',
                  ensure_schema_error = (\<lambda>d. None)\<rparr>,
      ie_provider = \<lparr>client_error = None, respond = \<lambda>n batch. Inr (labelled (\<lambda>t. [1]) batch)\<rparr>,
      read_text = (\<lambda>p. Some [97, 98, 10, 99, 100]),
      insert_error = (\<lambda>rows. None)\<rparr>"

lemma example_embed_succeeds:
  "embed_texts_openai \<lparr>client_error = None, respond = \<lambda>n batch. Inr (labelled (\<lambda>t. [1]) batch)\<rparr>
     [[97, 98, 10, 99, 100]] 64 3 (3 / 2) world0 =
   Some (Inr [[1]], \<lparr>clients_built = 1, provider_calls = 1, slept = []\<rparr>)"
  by (simp add: embed_texts_openai_def embed_loop.simps retry_batch.simps world0_def
        py_slice_def py_clamp_def labelled_def)

text \<open>
  A reindex whose embedding fails raises with the deletion pending and nothing
  committed; the next commit on the session, which the progress tracker issues on its
  next update, commits the deletion, and the rows of the prior run are gone.
\<close>

lemma failed_reindex_then_tracker_commit:
  "\<exists>t5 w5.
     index_project_chunks_to_pgvector failing_env True 1 example_files 1200 150 None prior_txn world0 =
       Some (Inl (ProviderError 3), t5, w5) \<and>
     map row_id (chunk_table (committed (session_of t5))) = [10, 11, 12, 13] \<and>
     map row_id (chunk_table (pending (session_of t5))) = [13] \<and>
     map row_id (chunk_table (committed (session_of (emit_progress True 1 ''completed'' t5)))) = [13] \<and>
     map row_id (chunk_table (committed (session_of (emit_progress False 1 ''completed'' t5))))
       = [10, 11, 12, 13]"
  by (simp add: index_project_chunks_to_pgvector_def failing_env_def example_files_def
        example_chunks_default example_embed_fails probe_dim_def infer_embedding_dim_def
        strip_def py_isspace_def
        emit_progress_def tx_commit_def tx_update_def commit_def rollback_def
        delete_project_chunks_def prior_txn_def prior_database_def example_table_def Let_def)

text \<open>
  Claim C3 fails on the code.  A first reindex of project 1 succeeds and commits its one
  chunk as row 14, replacing the rows 10 to 12; a second reindex, of files that have
  become blank, succeeds with no chunk and returns before the deletion, so the committed
  chunk set of the project is still row 14 of the first run and not the empty chunk set
  of the second.
\<close>

theorem empty_reindex_keeps_previous_rows:
  "\<exists>t1 w1.
     index_project_chunks_to_pgvector good_env False 1 example_files 1200 150 None prior_txn world0 =
       Some (Inr \<lparr>files_indexed = 1, chunks_written = 1, embedding_dim = Some 1536\<rparr>, t1, w1) \<and>
     map row_id (chunk_table (committed (session_of t1))) = [13, 14] \<and>
     index_project_chunks_to_pgvector (good_env\<lparr>read_text := \<lambda>p. Some [32, 10]\<rparr>) False 1
         example_files 1200 150 None t1 w1 =
       Some (Inr \<lparr>files_indexed = 0, chunks_written = 0, embedding_dim = None\<rparr>, t1, w1) \<and>
     map row_id (filter (\<lambda>r. row_project_id r = 1) (chunk_table (committed (session_of t1)))) = [14]"
  by (simp add: index_project_chunks_to_pgvector_def good_env_def example_files_def
        example_chunks_default example_embed_succeeds probe_dim_def infer_embedding_dim_def
        strip_def py_isspace_def make_rows_def insert_rows_def enumerate_eq_zip
        emit_progress_def tx_commit_def tx_update_def commit_def rollback_def
        delete_project_chunks_def prior_txn_def prior_database_def example_table_def Let_def)

end
